theory Spec2Isabelle
  imports Main
begin

section \<open>Data model of \<open>fatiando.inversion.pgrav3d\<close>\<close>

text \<open>
  The module keeps its working data in four module-level variables (\<open>_jacobian\<close>,
  \<open>_mesh\<close>, \<open>_data\<close>, \<open>_data_vector\<close>) and mutates the dictionaries it is
  handed.  The embedding threads one explicit state through every function: the four
  globals, the store of the per-component grid dictionaries (the observation set maps a
  component name to a reference into that store, so that sharing between two
  dictionaries is visible), and a counter of forward-kernel invocations.

  The numbers of the observations, the kernels and the estimates are values of an
  arbitrary type \<open>'a\<close> carrying only the operations the code applies to them
  (\<open>0\<close>, \<open>1\<close>, \<open>+\<close>, \<open>-\<close>, \<open>*\<close>, division); no algebraic law is assumed of them, so
  what is proved of them also holds of machine floats.
\<close>

datatype error =
    AssertionError string  \<comment> \<open>a failed \<open>assert\<close>, with its message\<close>
  | KeyError string        \<comment> \<open>a dictionary read or \<open>del\<close> of a missing key\<close>
  | IndexError             \<comment> \<open>\<open>data.keys()[0]\<close> of an empty dictionary, slicing a numpy scalar\<close>
  | ValueError             \<comment> \<open>numpy: operands whose shapes do not fit, a negative dimension\<close>
  | TypeError              \<comment> \<open>an operand that is no number or array\<close>

text \<open>A mesh cell: a dictionary with the six bounds and, once filled, a \<open>'value'\<close>.\<close>

record 'a cell =
  cell_x1 :: 'a
  cell_x2 :: 'a
  cell_y1 :: 'a
  cell_y2 :: 'a
  cell_z1 :: 'a
  cell_z2 :: 'a
  cell_value :: "'a option"

text \<open>
  The mesh is a 3-D numpy array of cells: \<open>mesh.shape\<close> is \<open>(nz, ny, nx)\<close>,
  \<open>mesh.ravel()\<close> the cells in flattened order, \<open>mesh.size\<close> the product of the shape.
\<close>

record 'a mesh =
  mesh_shape :: "nat \<times> nat \<times> nat"
  mesh_ravel :: "'a cell list"

definition mesh_size :: "'a mesh \<Rightarrow> nat" where
  "mesh_size m = (case mesh_shape m of (nz, ny, nx) \<Rightarrow> nz * ny * nx)"

text \<open>
  A data grid: the dictionary of one component, with the coordinate arrays \<open>'x'\<close>,
  \<open>'y'\<close>, \<open>'z'\<close> and the optional array \<open>'value'\<close> of observed values.
\<close>

record 'a grid =
  grid_x :: "'a list"
  grid_y :: "'a list"
  grid_z :: "'a list"
  grid_value :: "'a list option"

text \<open>
  An observation set is a dictionary from component names to grid dictionaries: an
  association list in the dictionary's iteration order (\<open>data.keys()\<close>), whose values
  are references into the store.
\<close>

type_synonym data = "(string \<times> nat) list"

definition keys :: "data \<Rightarrow> string list" where
  "keys d = map fst d"

text \<open>A numpy result is a 1-D array or, for the inner product of two 1-D arrays, a scalar.\<close>

datatype 'a ndarray = Scalar 'a | Array "'a list"

record 'a state =
  g_jacobian :: "'a list list option"
  g_mesh :: "'a mesh option"
  g_data :: "data option"
  g_data_vector :: "'a list option"
  heap :: "nat \<Rightarrow> 'a grid"
  kernel_calls :: nat

text \<open>
  The result of a call: the value returned or the exception raised, and the state the
  call leaves behind in either case.
\<close>

type_synonym ('r, 'a) result = "(error + 'r) \<times> 'a state"

text \<open>
  \<open>_calculators[field]\<close>, one of the functions of \<open>fatiando.gravity.prism\<close>, called as
  \<open>function(dens, x1, x2, y1, y2, z1, z2, x, y, z)\<close>.  The kernels are external to the
  module and enter every definition as a parameter.
\<close>

type_synonym 'a calculators =
  "string \<Rightarrow> 'a \<Rightarrow> 'a \<Rightarrow> 'a \<Rightarrow> 'a \<Rightarrow> 'a \<Rightarrow> 'a \<Rightarrow> 'a \<Rightarrow> 'a \<Rightarrow> 'a \<Rightarrow> 'a \<Rightarrow> 'a"

text \<open>The list \<open>['gz', 'gxx', 'gxy', 'gxz', 'gyy', 'gyz', 'gzz']\<close> of the source.\<close>

definition field_list :: "string list" where
  "field_list = [''gz'', ''gxx'', ''gxy'', ''gxz'', ''gyy'', ''gyz'', ''gzz'']"

section \<open>\<open>clear\<close> and \<open>fill_mesh\<close>\<close>

definition clear :: "'a state \<Rightarrow> 'a state" where
  "clear s = s\<lparr>g_jacobian := None, g_mesh := None, g_data := None, g_data_vector := None\<rparr>"

text \<open>
  \<open>for value, cell in zip(estimate, mesh.ravel()): cell['value'] = value\<close>.
  \<open>zip\<close> stops at the shorter sequence; the cells it does not reach are not touched.
\<close>

fun fill_cells :: "'a list \<Rightarrow> 'a cell list \<Rightarrow> 'a cell list" where
  "fill_cells (v # vs) (c # cs) = c\<lparr>cell_value := Some v\<rparr> # fill_cells vs cs"
| "fill_cells [] cs = cs"
| "fill_cells vs [] = []"

definition fill_mesh :: "'a list \<Rightarrow> 'a mesh \<Rightarrow> 'a mesh" where
  "fill_mesh estimate mesh = mesh\<lparr>mesh_ravel := fill_cells estimate (mesh_ravel mesh)\<rparr>"

section \<open>\<open>extract_data_vector\<close>\<close>

text \<open>
  One of the seven blocks of the function:
  \<^verbatim>\<open>if 'gz' in data.keys():
      data_vector.extend(data['gz']['value'])
      if inplace:
          del data['gz']['value']\<close>
  on the pair of the vector built so far and the store.  Reading a missing \<open>'value'\<close>
  raises \<open>KeyError\<close>; what earlier blocks deleted stays deleted.
\<close>

definition extract_field ::
  "string \<Rightarrow> data \<Rightarrow> bool \<Rightarrow> 'a list \<times> 'a state \<Rightarrow> (error + 'a list) \<times> 'a state" where
  "extract_field field d inplace acc =
     (case acc of (data_vector, s) \<Rightarrow>
        (case map_of d field of
           None \<Rightarrow> (Inr data_vector, s)
         | Some r \<Rightarrow>
             (case grid_value (heap s r) of
                None \<Rightarrow> (Inl (KeyError ''value''), s)
              | Some vs \<Rightarrow>
                  (Inr (data_vector @ vs),
                   if inplace
                   then s\<lparr>heap := (heap s)(r := (heap s r)\<lparr>grid_value := None\<rparr>)\<rparr>
                   else s))))"

text \<open>Sequencing: the next statement runs on the value and state of the previous one.\<close>

definition and_then ::
  "(error + 'r) \<times> 'a state \<Rightarrow> ('r \<Rightarrow> 'a state \<Rightarrow> (error + 'q) \<times> 'a state)
     \<Rightarrow> (error + 'q) \<times> 'a state" where
  "and_then m f = (case m of (Inl e, s) \<Rightarrow> (Inl e, s) | (Inr v, s) \<Rightarrow> f v s)"

definition extract_data_vector :: "data \<Rightarrow> bool \<Rightarrow> 'a state \<Rightarrow> ('a list, 'a) result" where
  "extract_data_vector d inplace s =
     and_then (extract_field ''gz'' d inplace ([], s)) (\<lambda>v1 s1.
     and_then (extract_field ''gxx'' d inplace (v1, s1)) (\<lambda>v2 s2.
     and_then (extract_field ''gxy'' d inplace (v2, s2)) (\<lambda>v3 s3.
     and_then (extract_field ''gxz'' d inplace (v3, s3)) (\<lambda>v4 s4.
     and_then (extract_field ''gyy'' d inplace (v4, s4)) (\<lambda>v5 s5.
     and_then (extract_field ''gyz'' d inplace (v5, s5)) (\<lambda>v6 s6.
     extract_field ''gzz'' d inplace (v6, s6)))))))"

section \<open>\<open>_build_pgrav3d_jacobian\<close>\<close>

text \<open>
  \<^verbatim>\<open>row = [function(1., cell['x1'], cell['x2'], cell['y1'], cell['y2'],
                  cell['z1'], cell['z2'], x, y, z) for cell in _mesh.ravel()]\<close>
  The natural number counts the invocations of the kernel.
\<close>

fun build_row ::
  "'a::one calculators \<Rightarrow> string \<Rightarrow> 'a \<times> 'a \<times> 'a \<Rightarrow> 'a cell list \<Rightarrow> nat \<Rightarrow> 'a list \<times> nat" where
  "build_row function field c [] n = ([], n)"
| "build_row function field c (cell # cells) n =
     (case c of (x, y, z) \<Rightarrow>
        (case build_row function field c cells (Suc n) of (row, n') \<Rightarrow>
           (function field 1 (cell_x1 cell) (cell_x2 cell) (cell_y1 cell) (cell_y2 cell)
              (cell_z1 cell) (cell_z2 cell) x y z # row, n')))"

text \<open>\<open>for x, y, z in coordinates: ... append_row(row)\<close>\<close>

fun build_rows ::
  "'a::one calculators \<Rightarrow> string \<Rightarrow> ('a \<times> 'a \<times> 'a) list \<Rightarrow> 'a cell list
     \<Rightarrow> 'a list list \<times> nat \<Rightarrow> 'a list list \<times> nat" where
  "build_rows function field [] cells acc = acc"
| "build_rows function field (c # coordinates) cells acc =
     (case acc of (jacobian, n) \<Rightarrow>
        (case build_row function field c cells n of (row, n') \<Rightarrow>
           build_rows function field coordinates cells (jacobian @ [row], n')))"

text \<open>
  \<open>for field in ['gz', ...]: if field in _data.keys(): coordinates = zip(x, y, z) ...\<close>
\<close>

fun build_fields ::
  "'a::one calculators \<Rightarrow> string list \<Rightarrow> data \<Rightarrow> (nat \<Rightarrow> 'a grid) \<Rightarrow> 'a cell list
     \<Rightarrow> 'a list list \<times> nat \<Rightarrow> 'a list list \<times> nat" where
  "build_fields calc [] d h cells acc = acc"
| "build_fields calc (field # fs) d h cells acc =
     (case map_of d field of
        None \<Rightarrow> build_fields calc fs d h cells acc
      | Some r \<Rightarrow>
          build_fields calc fs d h cells
            (build_rows calc field
               (zip (grid_x (h r)) (zip (grid_y (h r)) (grid_z (h r)))) cells acc))"

definition build_pgrav3d_jacobian ::
  "'a::one calculators \<Rightarrow> 'a list \<Rightarrow> 'a state \<Rightarrow> ('a list list, 'a) result" where
  "build_pgrav3d_jacobian calc estimate s =
     (case g_mesh s of
        None \<Rightarrow> (Inl (AssertionError ''Can't build Jacobian. No mesh defined''), s)
      | Some mesh \<Rightarrow>
          (case g_data s of
             None \<Rightarrow> (Inl (AssertionError ''Can't build Jacobian. No data defined''), s)
           | Some d \<Rightarrow>
               (case g_jacobian s of
                  Some jacobian \<Rightarrow> (Inr jacobian, s)
                | None \<Rightarrow>
                    (case build_fields calc field_list d (heap s) (mesh_ravel mesh)
                            ([], kernel_calls s) of
                       (jacobian, n) \<Rightarrow>
                         (Inr jacobian, s\<lparr>g_jacobian := Some jacobian, kernel_calls := n\<rparr>)))))"

section \<open>\<open>calc_adjustment\<close> and \<open>residuals\<close>\<close>

text \<open>
  \<open>numpy.dot(jacobian, estimate)\<close> for a 1-D estimate.  \<open>numpy.array\<close> of a list of
  equally long rows is a 2-D array, whose product with the estimate is the array of the
  rows' inner products and exists when the rows are as long as the estimate; of the
  empty list it is a 1-D array of length 0, whose product with the estimate is a scalar
  and exists when the estimate is empty too.  The order in which numpy adds the products
  of a row is not specified; the model adds from the left.
\<close>

definition inner :: "'a::{zero,plus,times} list \<Rightarrow> 'a list \<Rightarrow> 'a" where
  "inner row e = foldl (+) 0 (map2 (*) row e)"

definition numpy_dot :: "'a::{zero,plus,times} list list \<Rightarrow> 'a list \<Rightarrow> error + 'a ndarray" where
  "numpy_dot jacobian e =
     (if jacobian = [] then (if e = [] then Inr (Scalar 0) else Inl ValueError)
      else if list_all (\<lambda>row. length row = length e) jacobian
      then Inr (Array (map (\<lambda>row. inner row e) jacobian))
      else Inl ValueError)"

text \<open>
  The loop of the \<open>grid=True\<close> branch, on the vector left to distribute and the state:
  \<^verbatim>\<open>for field in ['gz', ...]:
      if field in _data.keys():
          ndata = len(_data[field]['x'])
          adjusted_grid[field]['value'] = adjusted[:ndata]
          adjusted = adjusted[ndata:]\<close>
  \<open>adjusted_grid = _data.copy()\<close> copies the outer dictionary only: \<open>adjusted_grid[field]\<close>
  is the same grid dictionary as \<open>_data[field]\<close>, the one at the reference.  A numpy
  scalar cannot be sliced.
\<close>

fun slice_fields ::
  "string list \<Rightarrow> data \<Rightarrow> 'a ndarray \<Rightarrow> 'a state \<Rightarrow> ('a ndarray, 'a) result" where
  "slice_fields [] d adjusted s = (Inr adjusted, s)"
| "slice_fields (field # fs) d adjusted s =
     (case map_of d field of
        None \<Rightarrow> slice_fields fs d adjusted s
      | Some r \<Rightarrow>
          (case adjusted of
             Scalar a \<Rightarrow> (Inl IndexError, s)
           | Array xs \<Rightarrow>
               (let ndata = length (grid_x (heap s r))
                in slice_fields fs d (Array (drop ndata xs))
                     (s\<lparr>heap := (heap s)(r := (heap s r)\<lparr>grid_value := Some (take ndata xs)\<rparr>)\<rparr>))))"

text \<open>What \<open>calc_adjustment\<close> returns: the adjusted vector, or the dictionary of grids.\<close>

datatype 'a adjustment = Vector "'a ndarray" | Grid data

definition calc_adjustment ::
  "'a::{zero,one,plus,times} calculators \<Rightarrow> 'a list \<Rightarrow> bool \<Rightarrow> 'a state
     \<Rightarrow> ('a adjustment, 'a) result" where
  "calc_adjustment calc estimate grid s =
     and_then (build_pgrav3d_jacobian calc estimate s) (\<lambda>jacobian s1.
       (case numpy_dot jacobian estimate of
          Inl e \<Rightarrow> (Inl e, s1)
        | Inr adjusted \<Rightarrow>
            if grid then
              (case g_data s1 of
                 None \<Rightarrow> (Inl TypeError, s1)  \<comment> \<open>not reached: the builder has asserted \<open>_data\<close>\<close>
               | Some d \<Rightarrow>
                   and_then (slice_fields field_list d adjusted s1) (\<lambda>rest s2. (Inr (Grid d), s2)))
            else (Inr (Vector adjusted), s1)))"

text \<open>
  \<open>data_vector - adjusted\<close>, a list minus a numpy value: elementwise, an operand of
  length 1 or a scalar being stretched to the length of the other.
\<close>

fun numpy_sub :: "'a::minus list \<Rightarrow> 'a adjustment \<Rightarrow> error + 'a list" where
  "numpy_sub dv (Vector (Scalar a)) = Inr (map (\<lambda>v. v - a) dv)"
| "numpy_sub dv (Vector (Array xs)) =
     (if length dv = length xs then Inr (map2 (-) dv xs)
      else if length dv = 1 then Inr (map (\<lambda>x. hd dv - x) xs)
      else if length xs = 1 then Inr (map (\<lambda>v. v - hd xs) dv)
      else Inl ValueError)"
| "numpy_sub dv (Grid d) = Inl TypeError"

definition residuals ::
  "'a::{zero,one,plus,minus,times} calculators \<Rightarrow> data \<Rightarrow> 'a list \<Rightarrow> 'a state
     \<Rightarrow> ('a list, 'a) result" where
  "residuals calc d estimate s =
     and_then (calc_adjustment calc estimate False s) (\<lambda>adjusted s1.
       (case d of
          [] \<Rightarrow> (Inl IndexError, s1)
        | (key, r) # rest \<Rightarrow>
            if grid_value (heap s1 r) \<noteq> None then
              and_then (extract_data_vector d False s1) (\<lambda>data_vector s2.
                (numpy_sub data_vector adjusted, s2))
            else
              (case g_data_vector s1 of
                 None \<Rightarrow>
                   (Inl (AssertionError (''Missing 'value' key in '' @ key @ '' data'')), s1)
               | Some data_vector \<Rightarrow> (numpy_sub data_vector adjusted, s1))))"

section \<open>\<open>_build_pgrav3d_first_deriv\<close>\<close>

text \<open>
  The matrix is a list of rows.  Its entries are the floats \<open>0.\<close>, \<open>1.\<close> and \<open>-1.\<close>,
  which are exact, so they are modelled as integers.  An assignment
  \<open>first_deriv[i][j] = v\<close> outside the array raises \<open>IndexError\<close>.
\<close>

definition set_entry :: "int list list \<Rightarrow> nat \<Rightarrow> nat \<Rightarrow> int \<Rightarrow> error + int list list" where
  "set_entry first_deriv i j v =
     (if i < length first_deriv \<and> j < length (first_deriv ! i)
      then Inr (first_deriv[i := (first_deriv ! i)[j := v]])
      else Inl IndexError)"

text \<open>
  The body of the innermost loops, on \<open>(first_deriv, deriv_i, param_i)\<close>; \<open>off\<close> is
  the distance of the two parameters, \<open>1\<close>, \<open>nx\<close> or \<open>nx*ny\<close>:
  \<^verbatim>\<open>first_deriv[deriv_i][param_i] = 1
  first_deriv[deriv_i][param_i + off] = -1
  deriv_i += 1
  param_i += 1\<close>
\<close>

type_synonym deriv_state = "int list list \<times> nat \<times> nat"

definition deriv_body :: "nat \<Rightarrow> deriv_state \<Rightarrow> error + deriv_state" where
  "deriv_body off st =
     (case st of (first_deriv, deriv_i, param_i) \<Rightarrow>
        (case set_entry first_deriv deriv_i param_i 1 of
           Inl e \<Rightarrow> Inl e
         | Inr first_deriv1 \<Rightarrow>
             (case set_entry first_deriv1 deriv_i (param_i + off) (- 1) of
                Inl e \<Rightarrow> Inl e
              | Inr first_deriv2 \<Rightarrow> Inr (first_deriv2, deriv_i + 1, param_i + 1))))"

text \<open>
  \<open>for i in xrange(n): body\<close>, for a body that does not read the loop variable (none
  of the nine loops does: the two counters carry the position).
\<close>

fun repeat :: "nat \<Rightarrow> ('s \<Rightarrow> error + 's) \<Rightarrow> 's \<Rightarrow> error + 's" where
  "repeat 0 body st = Inr st"
| "repeat (Suc n) body st = (case body st of Inl e \<Rightarrow> Inl e | Inr st' \<Rightarrow> repeat n body st')"

text \<open>\<open>param_i += n\<close> after a loop.\<close>

definition then_skip :: "nat \<Rightarrow> error + deriv_state \<Rightarrow> error + deriv_state" where
  "then_skip n r =
     (case r of Inl e \<Rightarrow> Inl e
      | Inr (first_deriv, deriv_i, param_i) \<Rightarrow> Inr (first_deriv, deriv_i, param_i + n))"

text \<open>\<open>param_i = 0\<close> before the loops of the next direction.\<close>

definition reset_param :: "deriv_state \<Rightarrow> deriv_state" where
  "reset_param st = (case st of (first_deriv, deriv_i, param_i) \<Rightarrow> (first_deriv, deriv_i, 0))"

definition x_derivatives :: "nat \<Rightarrow> nat \<Rightarrow> nat \<Rightarrow> deriv_state \<Rightarrow> error + deriv_state" where
  "x_derivatives nx ny nz =
     repeat nz (repeat ny (\<lambda>st. then_skip 1 (repeat (nx - 1) (deriv_body 1) st)))"

definition y_derivatives :: "nat \<Rightarrow> nat \<Rightarrow> nat \<Rightarrow> deriv_state \<Rightarrow> error + deriv_state" where
  "y_derivatives nx ny nz =
     repeat nz (\<lambda>st. then_skip nx (repeat (ny - 1) (repeat nx (deriv_body nx)) st))"

definition z_derivatives :: "nat \<Rightarrow> nat \<Rightarrow> nat \<Rightarrow> deriv_state \<Rightarrow> error + deriv_state" where
  "z_derivatives nx ny nz =
     repeat (nz - 1) (repeat ny (repeat nx (deriv_body (nx * ny))))"

text \<open>
  The function on the shape \<open>(nz, ny, nx)\<close> of the mesh.  The dimensions of an array
  are natural numbers; \<open>deriv_num\<close> is computed in the integers, and \<open>numpy.zeros\<close>
  refuses a negative one.  \<open>xrange(nx - 1)\<close> is empty when \<open>nx\<close> is \<open>0\<close>, as
  \<open>repeat (nx - 1)\<close> is.
\<close>

definition first_deriv_of_shape :: "nat \<Rightarrow> nat \<Rightarrow> nat \<Rightarrow> error + int list list" where
  "first_deriv_of_shape nz ny nx =
     (let deriv_num = (int nx - 1) * int ny * int nz + (int ny - 1) * int nx * int nz
                        + (int nz - 1) * int nx * int ny
      in if deriv_num < 0 then Inl ValueError
         else
           (case x_derivatives nx ny nz
                   (replicate (nat deriv_num) (replicate (nx * ny * nz) 0), 0, 0) of
              Inl e \<Rightarrow> Inl e
            | Inr st1 \<Rightarrow>
                (case y_derivatives nx ny nz (reset_param st1) of
                   Inl e \<Rightarrow> Inl e
                 | Inr st2 \<Rightarrow>
                     (case z_derivatives nx ny nz (reset_param st2) of
                        Inl e \<Rightarrow> Inl e
                      | Inr (first_deriv, deriv_i, param_i) \<Rightarrow> Inr first_deriv))))"

definition build_pgrav3d_first_deriv :: "'a state \<Rightarrow> (int list list, 'a) result" where
  "build_pgrav3d_first_deriv s =
     (case g_mesh s of
        None \<Rightarrow>
          (Inl (AssertionError ''Can't build first derivative matrix.No mesh defined''), s)
      | Some mesh \<Rightarrow>
          (case mesh_shape mesh of (nz, ny, nx) \<Rightarrow> (first_deriv_of_shape nz ny nx, s)))"

section \<open>The solver \<open>solvers.lm\<close>\<close>

text \<open>
  \<open>solve\<close> hands the inversion to \<open>solvers.lm\<close>, a function of the package that is
  not among the sources at hand.  The regularization parameters of \<open>solve\<close> reach it
  through the attributes of the module \<open>solvers\<close>.
\<close>

record 'a regularization =
  damping :: 'a
  smoothness :: 'a
  curvature :: 'a
  sharpness :: 'a
  beta :: 'a
  compactness :: 'a
  epsilon :: 'a

text \<open>
  The arithmetic of the solver that the specification leaves to the numerical library:
  the goal function of an estimate (data misfit of its residuals plus the weighted
  regularization terms), the damped step for a Marquardt parameter (the solution of the
  normal equations formed from the Jacobian, added to the estimate), and the test that
  the relative improvement of the goal function is below the tolerance.
\<close>

record ('a, 'g) numerics =
  goal_fn :: "'a regularization \<Rightarrow> 'a list \<Rightarrow> 'a list \<Rightarrow> 'g"
  step_fn :: "'a regularization \<Rightarrow> 'a \<Rightarrow> 'a list list \<Rightarrow> 'a list \<Rightarrow> 'a list \<Rightarrow> 'a list"
  converged :: "'g \<Rightarrow> 'g \<Rightarrow> bool"

datatype status = CONVERGED | MAX_ITERATIONS | STEP_EXHAUSTED

text \<open>
  Modelled from the spec: \<open>solvers.lm\<close>, steps 5 to 7 of the per-iteration algorithm,
  for one outer iteration.  A trial estimate is formed with the current Marquardt
  parameter; its predicted data are computed through \<open>calc_adjustment\<close> (the callback
  \<open>solve\<close> installs) and its residuals are observed minus predicted.  If its goal
  function is lower than the current one the step is accepted and the Marquardt
  parameter divided by \<open>lm_step\<close>; if not, the parameter is multiplied by \<open>lm_step\<close>
  and the step retried, at most \<open>max_steps\<close> times in all.  \<open>None\<close> is the exhausted
  budget.
\<close>

fun try_steps ::
  "'a::{zero,one,plus,minus,times,divide} calculators \<Rightarrow> ('a, 'g::ord) numerics
     \<Rightarrow> 'a regularization \<Rightarrow> 'a list \<Rightarrow> 'a \<Rightarrow> 'a list list \<Rightarrow> 'a list \<Rightarrow> 'a list \<Rightarrow> 'g
     \<Rightarrow> nat \<Rightarrow> 'a \<Rightarrow> 'a state \<Rightarrow> (('a list \<times> 'a list \<times> 'g \<times> 'a) option, 'a) result" where
  "try_steps calc num reg data_vector lm_step jacobian estimate res goal 0 marq s =
     (Inr None, s)"
| "try_steps calc num reg data_vector lm_step jacobian estimate res goal (Suc n) marq s =
     (let trial = step_fn num reg marq jacobian res estimate
      in (case calc_adjustment calc trial False s of
            (Inl e, s1) \<Rightarrow> (Inl e, s1)
          | (Inr adjusted, s1) \<Rightarrow>
              (case numpy_sub data_vector adjusted of
                 Inl e \<Rightarrow> (Inl e, s1)
               | Inr res' \<Rightarrow>
                   (let goal' = goal_fn num reg res' trial
                    in if goal' < goal
                       then (Inr (Some (trial, res', goal', divide marq lm_step)), s1)
                       else try_steps calc num reg data_vector lm_step jacobian estimate res
                              goal n (marq * lm_step) s1))))"

text \<open>
  Modelled from the spec: \<open>solvers.lm\<close>, the outer iterations (state \<open>ITERATING\<close>) and
  the three terminal states.  The goal function of the current estimate is the last
  entry of the trace: the one recorded when the estimate was accepted.  The Jacobian is
  asked of the builder in every iteration.
\<close>

fun lm_iterate ::
  "'a::{zero,one,plus,minus,times,divide} calculators \<Rightarrow> ('a, 'g::ord) numerics
     \<Rightarrow> 'a regularization \<Rightarrow> 'a list \<Rightarrow> 'a \<Rightarrow> nat \<Rightarrow> nat \<Rightarrow> 'a \<Rightarrow> 'a list \<Rightarrow> 'a list
     \<Rightarrow> 'g list \<Rightarrow> 'a state \<Rightarrow> ('a list \<times> 'g list \<times> status, 'a) result" where
  "lm_iterate calc num reg data_vector lm_step max_steps 0 marq estimate res goals s =
     (Inr (estimate, goals, MAX_ITERATIONS), s)"
| "lm_iterate calc num reg data_vector lm_step max_steps (Suc n) marq estimate res goals s =
     (case build_pgrav3d_jacobian calc estimate s of
        (Inl e, s1) \<Rightarrow> (Inl e, s1)
      | (Inr jacobian, s1) \<Rightarrow>
          (case try_steps calc num reg data_vector lm_step jacobian estimate res (last goals)
                  max_steps marq s1 of
             (Inl e, s2) \<Rightarrow> (Inl e, s2)
           | (Inr None, s2) \<Rightarrow> (Inr (estimate, goals, STEP_EXHAUSTED), s2)
           | (Inr (Some (trial, res', goal', marq')), s2) \<Rightarrow>
               if converged num (last goals) goal'
               then (Inr (trial, goals @ [goal'], CONVERGED), s2)
               else lm_iterate calc num reg data_vector lm_step max_steps n marq' trial res'
                      (goals @ [goal']) s2))"

text \<open>
  Modelled from the spec: \<open>solvers.lm\<close>, called as
  \<open>lm(data_vector, None, initial, lm_start, lm_step, max_steps, max_it)\<close>
  (state \<open>INITIALIZED\<close>): the goal function of the initial estimate opens the trace.
\<close>

definition lm ::
  "'a::{zero,one,plus,minus,times,divide} calculators \<Rightarrow> ('a, 'g::ord) numerics
     \<Rightarrow> 'a regularization \<Rightarrow> 'a list \<Rightarrow> 'a list \<Rightarrow> 'a \<Rightarrow> 'a \<Rightarrow> nat \<Rightarrow> nat \<Rightarrow> 'a state
     \<Rightarrow> ('a list \<times> 'g list \<times> status, 'a) result" where
  "lm calc num reg data_vector initial lm_start lm_step max_steps max_it s =
     (case calc_adjustment calc initial False s of
        (Inl e, s1) \<Rightarrow> (Inl e, s1)
      | (Inr adjusted, s1) \<Rightarrow>
          (case numpy_sub data_vector adjusted of
             Inl e \<Rightarrow> (Inl e, s1)
           | Inr res \<Rightarrow>
               lm_iterate calc num reg data_vector lm_step max_steps max_it lm_start initial
                 res [goal_fn num reg res initial] s1))"

section \<open>\<open>solve\<close>\<close>

text \<open>
  \<^verbatim>\<open>for key in data.keys():
      assert key in ['gz', 'gxx', 'gxy', 'gxz', 'gyy', 'gyz', 'gzz'], \
          "Invalid gravity component (data key): %s" % (key)\<close>
\<close>

fun check_keys :: "string list \<Rightarrow> error option" where
  "check_keys [] = None"
| "check_keys (key # ks) =
     (if key \<in> set field_list then check_keys ks
      else Some (AssertionError (''Invalid gravity component (data key): '' @ key)))"

text \<open>
  \<open>solve\<close>.  \<open>tiny\<close> is the float \<open>10**(-7)\<close> of
  \<open>initial = 10**(-7)*numpy.ones(mesh.size)\<close>.  The logging calls have no effect on
  the state and are left out.
\<close>

definition solve ::
  "'a::{zero,one,plus,minus,times,divide} calculators \<Rightarrow> ('a, 'g::ord) numerics \<Rightarrow> 'a
     \<Rightarrow> data \<Rightarrow> 'a mesh \<Rightarrow> 'a list option \<Rightarrow> 'a regularization \<Rightarrow> nat \<Rightarrow> 'a \<Rightarrow> 'a \<Rightarrow> nat
     \<Rightarrow> 'a state \<Rightarrow> ('a list \<times> 'g list, 'a) result" where
  "solve calc num tiny d mesh initial reg max_it lm_start lm_step max_steps s =
     (case check_keys (keys d) of
        Some e \<Rightarrow> (Inl e, s)
      | None \<Rightarrow>
          and_then (extract_data_vector d False (s\<lparr>g_mesh := Some mesh, g_data := Some d\<rparr>))
            (\<lambda>data_vector s1.
               and_then
                 (lm calc num reg data_vector
                    (case initial of
                       None \<Rightarrow> replicate (mesh_size mesh) (tiny * 1)
                     | Some estimate \<Rightarrow> estimate)
                    lm_start lm_step max_steps max_it (s1\<lparr>g_data_vector := Some data_vector\<rparr>))
                 (\<lambda>r s2. (case r of (estimate, goals, st) \<Rightarrow> (Inr (estimate, goals), s2)))))"

section \<open>Descriptions used in the statements\<close>

text \<open>
  The definitions of this section are not translations of the source: they say, in
  closed form, what the loops of the source are shown to compute.
\<close>

text \<open>The Jacobian row of one observation point: one kernel value per cell, unit density.\<close>

definition kernel_row ::
  "'a::one calculators \<Rightarrow> string \<Rightarrow> 'a cell list \<Rightarrow> 'a \<times> 'a \<times> 'a \<Rightarrow> 'a list" where
  "kernel_row calc field cells c =
     (case c of (x, y, z) \<Rightarrow>
        map (\<lambda>cell. calc field 1 (cell_x1 cell) (cell_x2 cell) (cell_y1 cell) (cell_y2 cell)
                     (cell_z1 cell) (cell_z2 cell) x y z) cells)"

text \<open>The observation points of a grid, in the order of its arrays.\<close>

definition coordinates :: "'a grid \<Rightarrow> ('a \<times> 'a \<times> 'a) list" where
  "coordinates g = zip (grid_x g) (zip (grid_y g) (grid_z g))"

text \<open>
  The row blocks of the components \<open>fs\<close> that are keys of \<open>d\<close>, in the order of \<open>fs\<close>,
  each block in the order of the component's observation points.
\<close>

definition row_blocks ::
  "'a::one calculators \<Rightarrow> string list \<Rightarrow> data \<Rightarrow> (nat \<Rightarrow> 'a grid) \<Rightarrow> 'a cell list
     \<Rightarrow> 'a list list" where
  "row_blocks calc fs d h cells =
     concat (map (\<lambda>field. case map_of d field of
                             None \<Rightarrow> []
                           | Some r \<Rightarrow> map (kernel_row calc field cells) (coordinates (h r))) fs)"

text \<open>The seven blocks of \<open>extract_data_vector\<close> as a loop over a list of components.\<close>

fun extract_fields ::
  "string list \<Rightarrow> data \<Rightarrow> bool \<Rightarrow> 'a list \<times> 'a state \<Rightarrow> (error + 'a list) \<times> 'a state" where
  "extract_fields [] d inplace acc = (Inr (fst acc), snd acc)"
| "extract_fields (field # fs) d inplace acc =
     (case extract_field field d inplace acc of
        (Inl e, s) \<Rightarrow> (Inl e, s)
      | (Inr v, s) \<Rightarrow> extract_fields fs d inplace (v, s))"

text \<open>
  The observed-value arrays of the components \<open>fs\<close> that are keys of \<open>d\<close>, one after
  the other in the order of \<open>fs\<close>.
\<close>

definition value_blocks :: "string list \<Rightarrow> data \<Rightarrow> (nat \<Rightarrow> 'a grid) \<Rightarrow> 'a list" where
  "value_blocks fs d h =
     concat (map (\<lambda>field. case map_of d field of
                             None \<Rightarrow> []
                           | Some r \<Rightarrow> (case grid_value (h r) of None \<Rightarrow> [] | Some vs \<Rightarrow> vs)) fs)"

text \<open>Every component of \<open>fs\<close> that is a key of \<open>d\<close> has its \<open>'value'\<close> array.\<close>

definition carries_values :: "string list \<Rightarrow> data \<Rightarrow> (nat \<Rightarrow> 'a grid) \<Rightarrow> bool" where
  "carries_values fs d h =
     list_all (\<lambda>field. case map_of d field of
                          None \<Rightarrow> True
                        | Some r \<Rightarrow> grid_value (h r) \<noteq> None) fs"

text \<open>
  A well-formed grid holds parallel arrays: the observed values are present and the
  four arrays have one length.  A well-formed observation set has well-formed grids.
\<close>

definition parallel_arrays :: "'a grid \<Rightarrow> bool" where
  "parallel_arrays g =
     (case grid_value g of
        None \<Rightarrow> False
      | Some vs \<Rightarrow> length vs = length (grid_x g) \<and> length (grid_y g) = length (grid_x g)
                    \<and> length (grid_z g) = length (grid_x g))"

definition well_formed :: "string list \<Rightarrow> data \<Rightarrow> (nat \<Rightarrow> 'a grid) \<Rightarrow> bool" where
  "well_formed fs d h =
     list_all (\<lambda>field. case map_of d field of
                          None \<Rightarrow> True
                        | Some r \<Rightarrow> parallel_arrays (h r)) fs"

text \<open>
  Each observed value paired with the Jacobian row of its own observation point,
  component after component.
\<close>

definition observation_pairs ::
  "'a::one calculators \<Rightarrow> string list \<Rightarrow> data \<Rightarrow> (nat \<Rightarrow> 'a grid) \<Rightarrow> 'a cell list
     \<Rightarrow> ('a \<times> 'a list) list" where
  "observation_pairs calc fs d h cells =
     concat (map (\<lambda>field. case map_of d field of
                             None \<Rightarrow> []
                           | Some r \<Rightarrow>
                               (case grid_value (h r) of
                                  None \<Rightarrow> []
                                | Some vs \<Rightarrow>
                                    zip vs (map (kernel_row calc field cells)
                                              (coordinates (h r))))) fs)"

text \<open>
  The number of observation points of a component as the slicing loop reads it,
  \<open>len(_data[field]['x'])\<close>; the position in the adjusted vector at which the slice of a
  component starts, the points of the components before it in \<open>fs\<close>; and the slice.
\<close>

definition ndata :: "data \<Rightarrow> (nat \<Rightarrow> 'a grid) \<Rightarrow> string \<Rightarrow> nat" where
  "ndata d h field = (case map_of d field of None \<Rightarrow> 0 | Some r \<Rightarrow> length (grid_x (h r)))"

definition slice_start :: "string list \<Rightarrow> data \<Rightarrow> (nat \<Rightarrow> 'a grid) \<Rightarrow> string \<Rightarrow> nat" where
  "slice_start fs d h field = sum_list (map (ndata d h) (takeWhile (\<lambda>f. f \<noteq> field) fs))"

definition predicted_slice ::
  "string list \<Rightarrow> data \<Rightarrow> (nat \<Rightarrow> 'a grid) \<Rightarrow> string \<Rightarrow> 'a list \<Rightarrow> 'a list" where
  "predicted_slice fs d h field xs = take (ndata d h field) (drop (slice_start fs d h field) xs)"

text \<open>The grid dictionaries of the components \<open>fs\<close> that are keys of \<open>d\<close>, as references.\<close>

definition grid_refs :: "string list \<Rightarrow> data \<Rightarrow> nat list" where
  "grid_refs fs d = concat (map (\<lambda>f. case map_of d f of None \<Rightarrow> [] | Some r \<Rightarrow> [r]) fs)"

text \<open>Two stores hold the same observation points in every grid.\<close>

definition same_points :: "(nat \<Rightarrow> 'a grid) \<Rightarrow> (nat \<Rightarrow> 'a grid) \<Rightarrow> bool" where
  "same_points h' h = (\<forall>r. grid_x (h' r) = grid_x (h r) \<and> grid_y (h' r) = grid_y (h r)
                          \<and> grid_z (h' r) = grid_z (h r))"

text \<open>
  The first-derivative operator in the words of the specification.  A row for the
  pair of the parameters \<open>p\<close> and \<open>p + off\<close> among \<open>n\<close> has \<open>+1\<close> at \<open>p\<close>, \<open>-1\<close> at
  \<open>p + off\<close> and \<open>0\<close> elsewhere.  The rows of one direction are those of the cells
  \<open>(i, j, k)\<close> with \<open>i < ci\<close>, \<open>j < cj\<close>, \<open>k < ck\<close>, at the flattened index
  \<open>i + j*nx + k*nx*ny\<close>, with \<open>i\<close> running fastest.  The operator lists the pairs
  along x (offset \<open>1\<close>), then those along y (offset \<open>nx\<close>), then those along z (offset
  \<open>nx*ny\<close>).
\<close>

definition pair_row :: "nat \<Rightarrow> nat \<Rightarrow> nat \<Rightarrow> int list" where
  "pair_row n p off = map (\<lambda>q. if q = p then 1 else if q = p + off then - 1 else 0) [0..<n]"

definition pair_rows :: "nat \<Rightarrow> nat \<Rightarrow> nat \<Rightarrow> nat \<Rightarrow> nat \<Rightarrow> nat \<Rightarrow> nat \<Rightarrow> int list list" where
  "pair_rows nx ny nz ci cj ck off =
     concat (map (\<lambda>k. concat (map (\<lambda>j.
        map (\<lambda>i. pair_row (nx * ny * nz) (i + j * nx + k * (nx * ny)) off) [0..<ci])
        [0..<cj])) [0..<ck])"

definition first_deriv_rows :: "nat \<Rightarrow> nat \<Rightarrow> nat \<Rightarrow> int list list" where
  "first_deriv_rows nx ny nz =
     pair_rows nx ny nz (nx - 1) ny nz 1 @ pair_rows nx ny nz nx (ny - 1) nz nx
       @ pair_rows nx ny nz nx ny (nz - 1) (nx * ny)"

text \<open>
  What a loop of \<open>_build_pgrav3d_first_deriv\<close> does to the matrix under construction,
  as long as \<open>B\<close> holds of \<open>param_i\<close>: with \<open>acc\<close> the rows written so far and zero
  rows after them, it replaces the next \<open>c\<close> zero rows by the rows \<open>R param_i\<close> and
  advances \<open>deriv_i\<close> by \<open>c\<close> and \<open>param_i\<close> by \<open>a\<close>.
\<close>

definition emits ::
  "nat \<Rightarrow> (deriv_state \<Rightarrow> error + deriv_state) \<Rightarrow> (nat \<Rightarrow> bool) \<Rightarrow> (nat \<Rightarrow> int list list)
     \<Rightarrow> nat \<Rightarrow> nat \<Rightarrow> bool" where
  "emits n f B R c a =
     ((\<forall>p. length (R p) = c) \<and>
      (\<forall>acc k p. B p \<longrightarrow>
         f (acc @ replicate (c + k) (replicate n 0), length acc, p)
           = Inr (acc @ R p @ replicate k (replicate n 0), length acc + c, p + a)))"



section \<open>Example inputs\<close>

text \<open>
  A mesh of two cells side by side along x, an observation set with two \<open>gz\<close> points
  and one \<open>gzz\<close> point whose dictionary order is not the canonical one, and a kernel
  over the integers.
\<close>

definition example_kernel :: "int calculators" where
  "example_kernel field dens x1 x2 y1 y2 z1 z2 x y z =
     dens * (x2 + x) * (if field = ''gz'' then 1 else 2)"

definition example_cell :: "int \<Rightarrow> int cell" where
  "example_cell a =
     \<lparr>cell_x1 = a, cell_x2 = a + 1, cell_y1 = 0, cell_y2 = 1, cell_z1 = 0, cell_z2 = 1,
      cell_value = None\<rparr>"

definition example_mesh :: "int mesh" where
  "example_mesh = \<lparr>mesh_shape = (1, 1, 2), mesh_ravel = [example_cell 0, example_cell 1]\<rparr>"

definition example_heap :: "nat \<Rightarrow> int grid" where
  "example_heap r =
     (if r = 0
      then \<lparr>grid_x = [10, 20], grid_y = [0, 0], grid_z = [5, 5], grid_value = Some [3, 4]\<rparr>
      else \<lparr>grid_x = [30], grid_y = [0], grid_z = [5], grid_value = Some [6]\<rparr>)"

definition example_data :: data where
  "example_data = [(''gzz'', 1), (''gz'', 0)]"

definition example_state :: "int state" where
  "example_state =
     \<lparr>g_jacobian = None, g_mesh = Some example_mesh, g_data = Some example_data,
      g_data_vector = None, heap = example_heap, kernel_calls = 0\<rparr>"

text \<open>
  Solver arithmetic over the integers: the goal function is the sum of the squared
  residuals plus the damped sum of the squared parameters, the step moves every
  parameter along the first Jacobian row, scaled by the first residual and damped by
  the Marquardt parameter.
\<close>

definition example_regularization :: "int regularization" where
  "example_regularization =
     \<lparr>damping = 0, smoothness = 0, curvature = 0, sharpness = 0, beta = 1,
      compactness = 0, epsilon = 1\<rparr>"

definition example_numerics :: "(int, int) numerics" where
  "example_numerics =
     \<lparr>goal_fn = (\<lambda>reg res estimate.
         sum_list (map (\<lambda>r. r * r) res) + damping reg * sum_list (map (\<lambda>p. p * p) estimate)),
      step_fn = (\<lambda>reg marq jacobian res estimate.
         map2 (\<lambda>p c. p + (c * hd res) div (marq * 144)) estimate (hd jacobian)),
      converged = (\<lambda>previous goal. \<bar>previous - goal\<bar> * 10000 \<le> \<bar>previous\<bar>)\<rparr>"

text \<open>
  The example state after the observed values have been deleted from the grids (as an
  in-place extraction does), without and with a cached data vector.
\<close>

definition example_stripped :: "int state" where
  "example_stripped = example_state\<lparr>heap := (\<lambda>r. (example_heap r)\<lparr>grid_value := None\<rparr>)\<rparr>"

definition example_stripped_cached :: "int state" where
  "example_stripped_cached = example_stripped\<lparr>g_data_vector := Some [3, 4, 6]\<rparr>"


text \<open>A mesh of two by two cells in one layer, \<open>mesh.shape = (1, 2, 2)\<close>.\<close>

definition example_layer_mesh :: "int mesh" where
  "example_layer_mesh =
     \<lparr>mesh_shape = (1, 2, 2),
      mesh_ravel = [example_cell 0, example_cell 1, example_cell 0, example_cell 1]\<rparr>"

text \<open>
  Observation sets of which one component only carries observed values, with a
  cached data vector: in the first the grid of \<open>gzz\<close>, the first key, carries them and
  that of \<open>gz\<close> does not; in the second it is the other way round.
\<close>

definition example_mixed :: "int state" where
  "example_mixed =
     example_state\<lparr>g_data_vector := Some [3, 4, 6],
       heap := (\<lambda>r. if r = 0 then (example_heap 0)\<lparr>grid_value := None\<rparr> else example_heap r)\<rparr>"

definition example_mixed_first :: "int state" where
  "example_mixed_first =
     example_state\<lparr>g_data_vector := Some [0, 0, 0],
       heap := (\<lambda>r. if r = 0 then example_heap 0 else (example_heap r)\<lparr>grid_value := None\<rparr>)\<rparr>"

section \<open>\<open>fill_mesh\<close> writes a prefix\<close>

lemma fill_cells_length: "length (fill_cells vs cs) = length cs"
  by (induction vs cs rule: fill_cells.induct) auto

lemma fill_cells_nth:
  "p < length cs \<Longrightarrow>
   fill_cells vs cs ! p
     = (if p < length vs then (cs ! p)\<lparr>cell_value := Some (vs ! p)\<rparr> else cs ! p)"
proof (induction vs cs arbitrary: p rule: fill_cells.induct)
  case (1 v vs c cs)
  then show ?case by (cases p) auto
qed auto

text \<open>
  C10.  \<open>fill_mesh\<close> has no failing path: for every estimate and mesh it returns the
  mesh with the same shape and as many cells, in which cell \<open>p\<close> carries the value
  \<open>estimate[p]\<close> (its bounds untouched) for the first
  \<open>min(len(estimate), cell_count)\<close> cells in flattened order, and every later cell is
  as it was; estimate entries beyond the last cell are ignored.
\<close>

theorem fill_mesh_prefix:
  "mesh_shape (fill_mesh estimate mesh) = mesh_shape mesh \<and>
   length (mesh_ravel (fill_mesh estimate mesh)) = length (mesh_ravel mesh) \<and>
   (\<forall>p. p < min (length estimate) (length (mesh_ravel mesh)) \<longrightarrow>
      mesh_ravel (fill_mesh estimate mesh) ! p
        = (mesh_ravel mesh ! p)\<lparr>cell_value := Some (estimate ! p)\<rparr>) \<and>
   (\<forall>p. min (length estimate) (length (mesh_ravel mesh)) \<le> p \<and> p < length (mesh_ravel mesh) \<longrightarrow>
      mesh_ravel (fill_mesh estimate mesh) ! p = mesh_ravel mesh ! p)"
  by (auto simp add: fill_mesh_def fill_cells_length fill_cells_nth)

text \<open>A one-entry estimate on the two-cell mesh fills cell 0 and leaves cell 1; of a
  three-entry estimate the third entry is dropped.\<close>

theorem fill_mesh_prefix_witness:
  "mesh_ravel (fill_mesh [7] example_mesh) ! 0 = (example_cell 0)\<lparr>cell_value := Some 7\<rparr> \<and>
   mesh_ravel (fill_mesh [7] example_mesh) ! 1 = example_cell 1 \<and>
   mesh_ravel (fill_mesh [7, 8, 9] example_mesh) ! 1 = (example_cell 1)\<lparr>cell_value := Some 8\<rparr> \<and>
   length (mesh_ravel (fill_mesh [7, 8, 9] example_mesh)) = 2"
  using fill_mesh_prefix[of "[7]" example_mesh] fill_mesh_prefix[of "[7, 8, 9]" example_mesh]
  by (simp add: example_mesh_def)

section \<open>\<open>solve\<close> validates the keys first\<close>

lemma check_keys_invalid:
  "\<not> set ks \<subseteq> set field_list \<Longrightarrow>
   \<exists>key. key \<in> set ks \<and> key \<notin> set field_list \<and>
     check_keys ks = Some (AssertionError (''Invalid gravity component (data key): '' @ key))"
  by (induction ks) auto


text \<open>
  C5.  If the data mapping has a key outside the seven component names, \<open>solve\<close>
  raises the assertion error "Invalid gravity component (data key): ..." for such a key
  (the error the specification calls \<open>InvalidComponentError\<close>) and leaves the state as
  it found it: neither mesh nor data is bound, no data vector is extracted, no Jacobian
  is built, no kernel is called, no grid is touched.
\<close>

theorem solve_invalid_key:
  assumes "\<not> set (keys d) \<subseteq> set field_list"
  shows "\<exists>key. key \<in> set (keys d) \<and> key \<notin> set field_list \<and>
     solve calc num tiny d mesh initial reg max_it lm_start lm_step max_steps s
       = (Inl (AssertionError (''Invalid gravity component (data key): '' @ key)), s)"
proof -
  from check_keys_invalid[OF assms] obtain key where
    k: "key \<in> set (keys d)" "key \<notin> set field_list"
      "check_keys (keys d)
         = Some (AssertionError (''Invalid gravity component (data key): '' @ key))"
    by blast
  then have "solve calc num tiny d mesh initial reg max_it lm_start lm_step max_steps s
       = (Inl (AssertionError (''Invalid gravity component (data key): '' @ key)), s)"
    by (simp add: solve_def)
  with k show ?thesis by blast
qed

theorem solve_invalid_key_witness:
  "\<not> set (keys [(''gz'', 0), (''foo'', 1)]) \<subseteq> set field_list \<and>
   solve example_kernel example_numerics 0 [(''gz'', 0), (''foo'', 1)] example_mesh None
       example_regularization 5 1 10 20 example_state
     = (Inl (AssertionError ''Invalid gravity component (data key): foo''), example_state)"
  using solve_invalid_key[of "[(''gz'', 0), (''foo'', 1)]" example_kernel example_numerics 0
          example_mesh None example_regularization 5 1 10 20 example_state]
  by (auto simp: keys_def field_list_def)

section \<open>The Jacobian is built once\<close>

lemma build_row_eq:
  "build_row calc field c cells n = (kernel_row calc field cells c, n + length cells)"
  by (induction cells arbitrary: n) (auto simp: kernel_row_def split: prod.splits)

lemma build_rows_eq:
  "build_rows calc field cs cells (J, n)
     = (J @ map (kernel_row calc field cells) cs, n + length cs * length cells)"
  by (induction cs arbitrary: J n) (auto simp: build_row_eq)

lemma build_fields_eq:
  "build_fields calc fs d h cells (J, n)
     = (J @ row_blocks calc fs d h cells,
        n + length (row_blocks calc fs d h cells) * length cells)"
  by (induction fs arbitrary: J n)
     (auto simp: row_blocks_def build_rows_eq coordinates_def algebra_simps split: option.splits)

lemma build_fresh:
  "g_mesh s = Some mesh \<Longrightarrow> g_data s = Some d \<Longrightarrow> g_jacobian s = None \<Longrightarrow>
   build_pgrav3d_jacobian calc e s =
     (Inr (row_blocks calc field_list d (heap s) (mesh_ravel mesh)),
      s\<lparr>g_jacobian := Some (row_blocks calc field_list d (heap s) (mesh_ravel mesh)),
        kernel_calls := kernel_calls s
          + length (row_blocks calc field_list d (heap s) (mesh_ravel mesh))
              * length (mesh_ravel mesh)\<rparr>)"
  by (simp add: build_pgrav3d_jacobian_def build_fields_eq)

lemma build_cached:
  "g_mesh s = Some mesh \<Longrightarrow> g_data s = Some d \<Longrightarrow> g_jacobian s = Some J \<Longrightarrow>
   build_pgrav3d_jacobian calc e s = (Inr J, s)"
  by (simp add: build_pgrav3d_jacobian_def)

lemma build_frame:
  "build_pgrav3d_jacobian calc e s = (r, s1) \<Longrightarrow>
   heap s1 = heap s \<and> g_data s1 = g_data s \<and> g_mesh s1 = g_mesh s \<and>
   g_data_vector s1 = g_data_vector s"
  by (auto simp: build_pgrav3d_jacobian_def split: option.splits prod.splits)

lemma build_caches:
  "build_pgrav3d_jacobian calc e s = (Inr J, s1) \<Longrightarrow> g_jacobian s1 = Some J"
  by (auto simp: build_pgrav3d_jacobian_def split: option.splits prod.splits)

lemma calc_adjustment_vector:
  "calc_adjustment calc e False s = (Inr adjusted, s1) \<longleftrightarrow>
   (\<exists>J a. build_pgrav3d_jacobian calc e s = (Inr J, s1) \<and> numpy_dot J e = Inr a \<and>
          adjusted = Vector a)"
  by (auto simp: calc_adjustment_def and_then_def split: prod.splits sum.splits)

lemma calc_adjustment_frame:
  "calc_adjustment calc e False s = (r, s1) \<Longrightarrow>
   heap s1 = heap s \<and> g_data s1 = g_data s \<and> g_mesh s1 = g_mesh s \<and>
   g_data_vector s1 = g_data_vector s"
  by (auto simp: calc_adjustment_def and_then_def dest: build_frame split: prod.splits sum.splits)

text \<open>
  C1.  Once a mesh and data are bound, the builder returns the same matrix \<open>J\<close> for any
  two estimates \<open>e1\<close>, \<open>e2\<close>, and a call that follows another returns \<open>J\<close> and leaves
  the whole state, the counter of kernel invocations included, as it is: nothing is
  recomputed.  When no Jacobian was cached, \<open>J\<close> consists of the kernel values at unit
  density for the cells' bounds and the observation points (no estimate enters), and
  building it took one kernel invocation per entry.
\<close>

theorem jacobian_built_once:
  assumes "g_mesh s = Some mesh" and "g_data s = Some d"
  shows "\<exists>J s1. build_pgrav3d_jacobian calc e1 s = (Inr J, s1) \<and>
                 build_pgrav3d_jacobian calc e2 s = (Inr J, s1) \<and>
                 build_pgrav3d_jacobian calc e2 s1 = (Inr J, s1) \<and>
                 (g_jacobian s = None \<longrightarrow>
                    J = row_blocks calc field_list d (heap s) (mesh_ravel mesh) \<and>
                    kernel_calls s1 = kernel_calls s + length J * length (mesh_ravel mesh))"
proof (cases "g_jacobian s")
  case None
  show ?thesis
    using assms None by (simp add: build_fresh build_cached)
next
  case (Some J)
  then show ?thesis
    using assms by (simp add: build_cached)
qed

lemma example_rows:
  "row_blocks example_kernel field_list example_data example_heap (mesh_ravel example_mesh)
     = [[11, 12], [21, 22], [62, 64]]"
  by (simp add: row_blocks_def field_list_def example_data_def example_heap_def
        example_mesh_def example_cell_def kernel_row_def coordinates_def example_kernel_def)

lemma example_state_fields:
  "g_mesh example_state = Some example_mesh"
  "g_data example_state = Some example_data"
  "g_jacobian example_state = None"
  "g_data_vector example_state = None"
  "heap example_state = example_heap"
  "kernel_calls example_state = 0"
  by (simp_all add: example_state_def)

theorem jacobian_built_once_witness:
  "g_mesh example_state = Some example_mesh \<and> g_data example_state = Some example_data \<and>
   (\<exists>s1. build_pgrav3d_jacobian example_kernel [1, 2] example_state
            = (Inr [[11, 12], [21, 22], [62, 64]], s1) \<and>
          build_pgrav3d_jacobian example_kernel [5, 5] s1
            = (Inr [[11, 12], [21, 22], [62, 64]], s1) \<and>
          kernel_calls s1 = 6)"
proof -
  have two: "length (mesh_ravel example_mesh) = 2" by (simp add: example_mesh_def)
  from jacobian_built_once[OF example_state_fields(1,2), of example_kernel "[1, 2]" "[5, 5]"]
  show ?thesis
    by (auto simp: example_rows example_state_fields two)
qed

section \<open>Flattening and splitting the observations\<close>

lemma extract_data_vector_loop:
  "extract_data_vector d inplace s = extract_fields field_list d inplace ([], s)"
  unfolding extract_data_vector_def field_list_def and_then_def extract_fields.simps
  by (simp split: prod.splits sum.splits)

lemma extract_fields_keep:
  "carries_values fs d (heap s) \<Longrightarrow>
   extract_fields fs d False (v, s) = (Inr (v @ value_blocks fs d (heap s)), s)"
  by (induction fs arbitrary: v)
     (auto simp: carries_values_def value_blocks_def extract_field_def split: option.splits)

lemma extract_fields_missing:
  "\<not> carries_values fs d (heap s) \<Longrightarrow>
   extract_fields fs d False (v, s) = (Inl (KeyError ''value''), s)"
  by (induction fs arbitrary: v)
     (auto simp: carries_values_def extract_field_def split: option.splits)

lemma well_formed_carries: "well_formed fs d h \<Longrightarrow> carries_values fs d h"
  by (induction fs)
     (auto simp: well_formed_def carries_values_def parallel_arrays_def split: option.splits)

lemma slice_fields_roundtrip:
  "well_formed fs d (heap s) \<Longrightarrow>
   slice_fields fs d (Array (value_blocks fs d (heap s) @ rest)) s = (Inr (Array rest), s)"
proof (induction fs arbitrary: s)
  case Nil
  then show ?case by (simp add: value_blocks_def)
next
  case (Cons f fs)
  show ?case
  proof (cases "map_of d f")
    case None
    with Cons show ?thesis by (simp add: value_blocks_def well_formed_def)
  next
    case (Some r)
    with Cons.prems obtain vs where vs: "grid_value (heap s r) = Some vs"
      "length vs = length (grid_x (heap s r))"
      by (auto simp: well_formed_def parallel_arrays_def split: option.splits)
    have same: "(heap s)(r := (heap s r)\<lparr>grid_value := Some vs\<rparr>) = heap s"
      using vs by (auto simp: fun_eq_iff)
    have wf: "well_formed fs d (heap s)"
      using Cons.prems by (simp add: well_formed_def)
    have vb: "value_blocks (f # fs) d (heap s) = vs @ value_blocks fs d (heap s)"
      using Some vs by (simp add: value_blocks_def)
    show ?thesis
      using Some vs same Cons.IH[OF wf] by (simp add: vb)
  qed
qed

lemma example_well_formed: "well_formed field_list example_data example_heap"
  by (simp add: well_formed_def field_list_def example_data_def example_heap_def
        parallel_arrays_def)

lemma example_values: "value_blocks field_list example_data example_heap = [3, 4, 6]"
  by (simp add: value_blocks_def field_list_def example_data_def example_heap_def)

lemma slice_fields_restores:
  "well_formed fs d h \<Longrightarrow> same_points (heap s') h \<Longrightarrow>
   slice_fields fs d (Array (value_blocks fs d h @ rest)) s'
     = (Inr (Array rest),
        s'\<lparr>heap := \<lambda>r. if r \<in> set (grid_refs fs d)
                         then (heap s' r)\<lparr>grid_value := grid_value (h r)\<rparr> else heap s' r\<rparr>)"
proof (induction fs arbitrary: s')
  case Nil
  then show ?case by (simp add: value_blocks_def grid_refs_def)
next
  case (Cons f fs)
  have wf: "well_formed fs d h" using Cons.prems(1) by (simp add: well_formed_def)
  show ?case
  proof (cases "map_of d f")
    case None
    then show ?thesis
      using Cons.IH[OF wf Cons.prems(2)] by (simp add: value_blocks_def grid_refs_def)
  next
    case (Some r)
    with Cons.prems(1) obtain vs where vs: "grid_value (h r) = Some vs"
      "length vs = length (grid_x (h r))"
      by (auto simp: well_formed_def parallel_arrays_def split: option.splits)
    let ?s1 = "s'\<lparr>heap := (heap s')(r := (heap s' r)\<lparr>grid_value := Some vs\<rparr>)\<rparr>"
    have n: "length (grid_x (heap s' r)) = length vs"
      using Cons.prems(2) vs(2) by (simp add: same_points_def)
    have sp: "same_points (heap ?s1) h"
      using Cons.prems(2) by (simp add: same_points_def)
    have vb: "value_blocks (f # fs) d h = vs @ value_blocks fs d h"
      using Some vs by (simp add: value_blocks_def)
    have refs: "grid_refs (f # fs) d = r # grid_refs fs d"
      using Some by (simp add: grid_refs_def)
    have st: "?s1\<lparr>heap := \<lambda>q. if q \<in> set (grid_refs fs d)
                         then (heap ?s1 q)\<lparr>grid_value := grid_value (h q)\<rparr> else heap ?s1 q\<rparr>
        = s'\<lparr>heap := \<lambda>q. if q \<in> set (grid_refs (f # fs) d)
                         then (heap s' q)\<lparr>grid_value := grid_value (h q)\<rparr> else heap s' q\<rparr>"
      using vs(1) by (auto simp: refs fun_eq_iff)
    have "slice_fields (f # fs) d (Array (value_blocks (f # fs) d h @ rest)) s'
        = slice_fields fs d (Array (value_blocks fs d h @ rest)) ?s1"
      using Some n by (simp add: vb Let_def)
    then show ?thesis
      using Cons.IH[OF wf sp] st by simp
  qed
qed

lemma grid_restored:
  "same_points h' h \<Longrightarrow> (h' r)\<lparr>grid_value := grid_value (h r)\<rparr> = h r"
  by (rule grid.equality) (simp_all add: same_points_def)

lemma grid_refs_member:
  "r \<in> set (grid_refs fs d) \<longleftrightarrow> (\<exists>f \<in> set fs. map_of d f = Some r)"
  by (induction fs) (auto simp: grid_refs_def split: option.splits)


lemma predicted_slice_value:
  assumes "well_formed fs d h" and "f \<in> set fs" and "map_of d f = Some r"
  shows "Some (predicted_slice fs d h f (value_blocks fs d h @ rest)) = grid_value (h r)"
  using assms
proof (induction fs)
  case Nil
  then show ?case by simp
next
  case (Cons g fs)
  have wf: "well_formed fs d h" using Cons.prems(1) by (simp add: well_formed_def)
  show ?case
  proof (cases "g = f")
    case True
    from Cons.prems(1,3) True obtain vs where vs: "grid_value (h r) = Some vs"
      "length vs = length (grid_x (h r))"
      by (auto simp: well_formed_def parallel_arrays_def split: option.splits)
    show ?thesis
      using True Cons.prems(3) vs
      by (simp add: predicted_slice_def slice_start_def ndata_def value_blocks_def)
  next
    case False
    then have mem: "f \<in> set fs" using Cons.prems(2) by simp
    have len: "\<exists>vg. value_blocks (g # fs) d h = vg @ value_blocks fs d h \<and>
                    length vg = ndata d h g"
      using Cons.prems(1)
      by (auto simp: value_blocks_def ndata_def well_formed_def parallel_arrays_def
               split: option.splits)
    then obtain vg where vg: "value_blocks (g # fs) d h = vg @ value_blocks fs d h"
      "length vg = ndata d h g" by blast
    have "predicted_slice (g # fs) d h f (value_blocks (g # fs) d h @ rest)
        = predicted_slice fs d h f (value_blocks fs d h @ rest)"
      using False vg by (simp add: predicted_slice_def slice_start_def)
    then show ?thesis using Cons.IH[OF wf mem Cons.prems(3)] by simp
  qed
qed

text \<open>
  C2.  For a well-formed observation set, \<open>extract_data_vector\<close> (not in place)
  returns the vector \<open>v\<close> of the observed values and changes nothing, and the loop
  of the \<open>grid=True\<close> branch of \<open>calc_adjustment\<close> splits \<open>v\<close> back into the
  original arrays: run on \<open>v\<close> and on any state whose grids have the same observation
  points, whatever their \<open>'value'\<close> entries are (deleted, or other values), it consumes
  \<open>v\<close> entirely, assigns to every component present its own slice of \<open>v\<close>, which is
  the array the component had, so that the component's grid is again what it was, and
  touches no other grid.  In particular it leaves the original state as it is; and when
  the set is the bound data and the adjusted vector of an estimate is \<open>v\<close>,
  \<open>calc_adjustment(estimate, grid=True)\<close> returns the grids unchanged.
\<close>

theorem flatten_unflatten:
  assumes "well_formed field_list d (heap s)"
  shows "\<exists>v. extract_data_vector d False s = (Inr v, s) \<and>
             v = value_blocks field_list d (heap s) \<and>
             slice_fields field_list d (Array v) s = (Inr (Array []), s) \<and>
             (\<forall>s'. same_points (heap s') (heap s) \<longrightarrow>
                (\<exists>h'. slice_fields field_list d (Array v) s' = (Inr (Array []), s'\<lparr>heap := h'\<rparr>) \<and>
                      (\<forall>f r. f \<in> set field_list \<and> map_of d f = Some r \<longrightarrow>
                         h' r = heap s r \<and>
                         grid_value (h' r) = Some (predicted_slice field_list d (heap s) f v)) \<and>
                      (\<forall>r. r \<notin> set (grid_refs field_list d) \<longrightarrow> h' r = heap s' r))) \<and>
             (\<forall>calc e s1.
                g_data s = Some d \<and>
                calc_adjustment calc e False s = (Inr (Vector (Array v)), s1) \<longrightarrow>
                calc_adjustment calc e True s = (Inr (Grid d), s1))"
proof -
  let ?v = "value_blocks field_list d (heap s)"
  have ext: "extract_data_vector d False s = (Inr ?v, s)"
    using assms by (simp add: extract_data_vector_loop extract_fields_keep well_formed_carries)
  have sl: "slice_fields field_list d (Array ?v) s = (Inr (Array []), s)"
    using assms slice_fields_roundtrip[of field_list d s "[]"] by simp
  have restore: "\<forall>s'. same_points (heap s') (heap s) \<longrightarrow>
      (\<exists>h'. slice_fields field_list d (Array ?v) s' = (Inr (Array []), s'\<lparr>heap := h'\<rparr>) \<and>
            (\<forall>f r. f \<in> set field_list \<and> map_of d f = Some r \<longrightarrow>
               h' r = heap s r \<and>
               grid_value (h' r) = Some (predicted_slice field_list d (heap s) f ?v)) \<and>
            (\<forall>r. r \<notin> set (grid_refs field_list d) \<longrightarrow> h' r = heap s' r))"
  proof (intro allI impI)
    fix s' :: "'a state"
    assume sp: "same_points (heap s') (heap s)"
    let ?h' = "\<lambda>r. if r \<in> set (grid_refs field_list d)
                     then (heap s' r)\<lparr>grid_value := grid_value (heap s r)\<rparr> else heap s' r"
    have run: "slice_fields field_list d (Array ?v) s' = (Inr (Array []), s'\<lparr>heap := ?h'\<rparr>)"
      using slice_fields_restores[OF assms sp, of "[]"] by simp
    have vals: "\<forall>f r. f \<in> set field_list \<and> map_of d f = Some r \<longrightarrow>
               ?h' r = heap s r \<and>
               grid_value (?h' r) = Some (predicted_slice field_list d (heap s) f ?v)"
    proof (intro allI impI)
      fix f r assume a: "f \<in> set field_list \<and> map_of d f = Some r"
      then have mem: "r \<in> set (grid_refs field_list d)"
        by (auto simp: grid_refs_member)
      have eq: "?h' r = heap s r"
        using mem grid_restored[OF sp] by simp
      have "Some (predicted_slice field_list d (heap s) f (?v @ [])) = grid_value (heap s r)"
        using a by (intro predicted_slice_value[OF assms]) simp_all
      then show "?h' r = heap s r \<and>
               grid_value (?h' r) = Some (predicted_slice field_list d (heap s) f ?v)"
        using eq by simp
    qed
    have frame: "\<forall>r. r \<notin> set (grid_refs field_list d) \<longrightarrow> ?h' r = heap s' r" by simp
    from run vals frame
    show "\<exists>h'. slice_fields field_list d (Array ?v) s' = (Inr (Array []), s'\<lparr>heap := h'\<rparr>) \<and>
            (\<forall>f r. f \<in> set field_list \<and> map_of d f = Some r \<longrightarrow>
               h' r = heap s r \<and>
               grid_value (h' r) = Some (predicted_slice field_list d (heap s) f ?v)) \<and>
            (\<forall>r. r \<notin> set (grid_refs field_list d) \<longrightarrow> h' r = heap s' r)"
      by blast
  qed
  have grid: "\<forall>calc e s1.
                g_data s = Some d \<and>
                calc_adjustment calc e False s = (Inr (Vector (Array ?v)), s1) \<longrightarrow>
                calc_adjustment calc e True s = (Inr (Grid d), s1)"
  proof (intro allI impI)
    fix calc :: "'a calculators" and e s1
    assume a: "g_data s = Some d \<and>
               calc_adjustment calc e False s = (Inr (Vector (Array ?v)), s1)"
    then obtain J where
      J: "build_pgrav3d_jacobian calc e s = (Inr J, s1)" "numpy_dot J e = Inr (Array ?v)"
      by (auto simp: calc_adjustment_vector)
    from build_frame[OF J(1)] a have fr: "heap s1 = heap s" "g_data s1 = Some d"
      by simp_all
    have "slice_fields field_list d (Array ?v) s1 = (Inr (Array []), s1)"
      using assms slice_fields_roundtrip[of field_list d s1 "[]"] fr by simp
    then show "calc_adjustment calc e True s = (Inr (Grid d), s1)"
      using J fr by (simp add: calc_adjustment_def and_then_def)
  qed
  from ext sl restore grid show ?thesis by blast
qed

text \<open>In the example the values \<open>[3, 4]\<close> and \<open>[6]\<close> are restored in the grids from
  which they had been deleted; the grid branch is run on a state whose cached Jacobian
  maps the estimate \<open>[1]\<close> to the observed values \<open>[3, 4, 6]\<close>.\<close>

theorem flatten_unflatten_witness:
  "well_formed field_list example_data (heap example_state) \<and>
   same_points (heap example_stripped) (heap example_state) \<and>
   grid_value (heap example_stripped 0) = None \<and>
   grid_value (heap example_stripped 1) = None \<and>
   extract_data_vector example_data False example_state = (Inr [3, 4, 6], example_state) \<and>
   slice_fields field_list example_data (Array [3, 4, 6]) example_state
     = (Inr (Array []), example_state) \<and>
   (\<exists>h'. slice_fields field_list example_data (Array [3, 4, 6]) example_stripped
            = (Inr (Array []), example_stripped\<lparr>heap := h'\<rparr>) \<and>
          grid_value (h' 0) = Some [3, 4] \<and> grid_value (h' 1) = Some [6]) \<and>
   calc_adjustment example_kernel [1] True (example_state\<lparr>g_jacobian := Some [[3], [4], [6]]\<rparr>)
     = (Inr (Grid example_data), example_state\<lparr>g_jacobian := Some [[3], [4], [6]]\<rparr>)"
proof -
  let ?s = "example_state\<lparr>g_jacobian := Some [[3], [4], [6]]\<rparr>"
  have wf: "well_formed field_list example_data (heap example_state)"
    by (simp add: example_state_fields example_well_formed)
  have wf': "well_formed field_list example_data (heap ?s)"
    by (simp add: example_state_fields example_well_formed)
  have sp: "same_points (heap example_stripped) (heap example_state)"
    by (simp add: same_points_def example_stripped_def example_state_fields)
  have none: "grid_value (heap example_stripped 0) = None"
    "grid_value (heap example_stripped 1) = None"
    by (simp_all add: example_stripped_def)
  have gz: "''gz'' \<in> set field_list \<and> map_of example_data ''gz'' = Some 0"
    and gzz: "''gzz'' \<in> set field_list \<and> map_of example_data ''gzz'' = Some 1"
    by (simp_all add: field_list_def example_data_def)
  have adj: "calc_adjustment example_kernel [1] False ?s = (Inr (Vector (Array [3, 4, 6])), ?s)"
    by (simp add: calc_adjustment_def and_then_def build_pgrav3d_jacobian_def
          example_state_fields numpy_dot_def inner_def)
  from flatten_unflatten[OF wf'] adj
  have grid: "calc_adjustment example_kernel [1] True ?s = (Inr (Grid example_data), ?s)"
    by (simp add: example_state_fields example_values)
  from flatten_unflatten[OF wf] sp obtain h' where h':
    "slice_fields field_list example_data (Array [3, 4, 6]) example_stripped
       = (Inr (Array []), example_stripped\<lparr>heap := h'\<rparr>)"
    "\<forall>f r. f \<in> set field_list \<and> map_of example_data f = Some r \<longrightarrow>
       h' r = heap example_state r"
    by (auto simp: example_state_fields example_values)
  from h'(2) gz gzz have "grid_value (h' 0) = Some [3, 4]" "grid_value (h' 1) = Some [6]"
    by (auto simp: example_state_fields example_heap_def)
  with h'(1) have restored:
    "\<exists>h'. slice_fields field_list example_data (Array [3, 4, 6]) example_stripped
            = (Inr (Array []), example_stripped\<lparr>heap := h'\<rparr>) \<and>
          grid_value (h' 0) = Some [3, 4] \<and> grid_value (h' 1) = Some [6]"
    by blast
  from flatten_unflatten[of example_data example_state]
  have plain: "extract_data_vector example_data False example_state = (Inr [3, 4, 6], example_state)"
    "slice_fields field_list example_data (Array [3, 4, 6]) example_state
       = (Inr (Array []), example_state)"
    by (simp_all add: example_state_fields example_well_formed example_values)
  from wf sp none plain restored grid show ?thesis by simp
qed

section \<open>One order for the data vector and the Jacobian rows\<close>

lemma coordinates_length:
  "parallel_arrays g \<Longrightarrow> length (coordinates g) = length (grid_x g)"
  by (simp add: parallel_arrays_def coordinates_def split: option.splits)

lemma blocks_same_length:
  "well_formed fs d h \<Longrightarrow>
   length (value_blocks fs d h) = length (row_blocks calc fs d h cells)"
  by (induction fs)
     (auto simp: well_formed_def value_blocks_def row_blocks_def coordinates_length
                 parallel_arrays_def split: option.splits)

lemma blocks_zip:
  "well_formed fs d h \<Longrightarrow>
   zip (value_blocks fs d h) (row_blocks calc fs d h cells)
     = observation_pairs calc fs d h cells"
proof (induction fs)
  case Nil
  then show ?case by (simp add: value_blocks_def row_blocks_def observation_pairs_def)
next
  case (Cons f fs)
  have wf: "well_formed fs d h" using Cons.prems by (simp add: well_formed_def)
  show ?case
  proof (cases "map_of d f")
    case None
    then show ?thesis
      using Cons.IH[OF wf] by (simp add: value_blocks_def row_blocks_def observation_pairs_def)
  next
    case (Some r)
    with Cons.prems have pa: "parallel_arrays (h r)" by (simp add: well_formed_def)
    then obtain vs where vs: "grid_value (h r) = Some vs" "length vs = length (grid_x (h r))"
      by (auto simp: parallel_arrays_def split: option.splits)
    have len: "length vs = length (map (kernel_row calc f cells) (coordinates (h r)))"
      using vs coordinates_length[OF pa] by simp
    show ?thesis
      using Some vs Cons.IH[OF wf] len
      by (simp add: value_blocks_def row_blocks_def observation_pairs_def)
  qed
qed

text \<open>
  C4.  For a well-formed observation set bound together with a mesh, the data vector is
  the concatenation of the value arrays of the components present, in the order
  \<open>gz, gxx, gxy, gxz, gyy, gyz, gzz\<close>; the Jacobian is the concatenation of the
  components' row blocks in the same order, each block in the order of the component's
  observation points; the two have the same length, and pairing entry \<open>i\<close> of the
  vector with row \<open>i\<close> of the matrix pairs every observed value with the row of its
  own observation point.
\<close>

theorem canonical_order:
  assumes "well_formed field_list d (heap s)"
    and "g_mesh s = Some mesh" and "g_data s = Some d" and "g_jacobian s = None"
  shows "\<exists>v J s1. extract_data_vector d False s = (Inr v, s) \<and>
           build_pgrav3d_jacobian calc e s = (Inr J, s1) \<and>
           field_list = [''gz'', ''gxx'', ''gxy'', ''gxz'', ''gyy'', ''gyz'', ''gzz''] \<and>
           v = value_blocks field_list d (heap s) \<and>
           J = row_blocks calc field_list d (heap s) (mesh_ravel mesh) \<and>
           length v = length J \<and>
           zip v J = observation_pairs calc field_list d (heap s) (mesh_ravel mesh)"
  using assms
  by (simp add: extract_data_vector_loop extract_fields_keep well_formed_carries build_fresh
        blocks_same_length blocks_zip)
     (simp add: field_list_def)

text \<open>In the example the dictionary lists \<open>gzz\<close> before \<open>gz\<close>; vector and rows both
  start with the two \<open>gz\<close> observations.\<close>

theorem canonical_order_witness:
  "well_formed field_list example_data (heap example_state) \<and>
   g_mesh example_state = Some example_mesh \<and> g_data example_state = Some example_data \<and>
   g_jacobian example_state = None \<and>
   fst (extract_data_vector example_data False example_state) = Inr [3, 4, 6] \<and>
   fst (build_pgrav3d_jacobian example_kernel [1, 2] example_state)
     = Inr [[11, 12], [21, 22], [62, 64]] \<and>
   observation_pairs example_kernel field_list example_data example_heap
       (mesh_ravel example_mesh)
     = [(3, [11, 12]), (4, [21, 22]), (6, [62, 64])]"
proof -
  have wf: "well_formed field_list example_data (heap example_state)"
    by (simp add: example_state_fields example_well_formed)
  from canonical_order[OF wf example_state_fields(1,2,3), of example_kernel "[1, 2]"]
  show ?thesis
    by (auto simp: example_state_fields example_well_formed example_values example_rows)
qed

section \<open>The grid branch of \<open>calc_adjustment\<close> writes into the bound data\<close>

lemma ndata_same: "same_points h' h \<Longrightarrow> ndata d h' f = ndata d h f"
  by (simp add: same_points_def ndata_def split: option.splits)

lemma slice_start_same: "same_points h' h \<Longrightarrow> slice_start fs d h' f = slice_start fs d h f"
  by (simp add: slice_start_def ndata_same cong: map_cong)

lemma slice_fields_overwrites:
  "distinct fs \<Longrightarrow> distinct (grid_refs fs d) \<Longrightarrow>
   \<exists>h'. slice_fields fs d (Array xs) s
           = (Inr (Array (drop (sum_list (map (ndata d (heap s)) fs)) xs)), s\<lparr>heap := h'\<rparr>) \<and>
         same_points h' (heap s) \<and>
         (\<forall>r. r \<notin> set (grid_refs fs d) \<longrightarrow> h' r = heap s r) \<and>
         (\<forall>f r. f \<in> set fs \<and> map_of d f = Some r \<longrightarrow>
            grid_value (h' r) = Some (predicted_slice fs d (heap s) f xs))"
proof (induction fs arbitrary: xs s)
  case Nil
  show ?case
    by (rule exI[of _ "heap s"]) (simp add: same_points_def)
next
  case (Cons g fs)
  have dfs: "distinct fs" and gfs: "g \<notin> set fs" using Cons.prems by auto
  show ?case
  proof (cases "map_of d g")
    case None
    have refs: "grid_refs (g # fs) d = grid_refs fs d" using None by (simp add: grid_refs_def)
    have nd: "ndata d (heap s) g = 0" using None by (simp add: ndata_def)
    from Cons.IH[OF dfs, of xs s] Cons.prems refs obtain h' where
      h': "slice_fields fs d (Array xs) s
             = (Inr (Array (drop (sum_list (map (ndata d (heap s)) fs)) xs)), s\<lparr>heap := h'\<rparr>)"
        "same_points h' (heap s)"
        "\<forall>r. r \<notin> set (grid_refs fs d) \<longrightarrow> h' r = heap s r"
        "\<forall>f r. f \<in> set fs \<and> map_of d f = Some r \<longrightarrow>
            grid_value (h' r) = Some (predicted_slice fs d (heap s) f xs)"
      by auto
    have start: "\<And>f. f \<in> set fs \<Longrightarrow> slice_start (g # fs) d (heap s) f = slice_start fs d (heap s) f"
      using gfs nd by (auto simp: slice_start_def)
    show ?thesis
      apply (rule exI[of _ h'])
      using h' None nd refs start gfs by (auto simp: predicted_slice_def)
  next
    case (Some r)
    let ?n = "length (grid_x (heap s r))"
    let ?s1 = "s\<lparr>heap := (heap s)(r := (heap s r)\<lparr>grid_value := Some (take ?n xs)\<rparr>)\<rparr>"
    have refs: "grid_refs (g # fs) d = r # grid_refs fs d" using Some by (simp add: grid_refs_def)
    then have rfs: "r \<notin> set (grid_refs fs d)" and drefs: "distinct (grid_refs fs d)"
      using Cons.prems by auto
    have nd: "ndata d (heap s) g = ?n" using Some by (simp add: ndata_def)
    have sp1: "same_points (heap ?s1) (heap s)" by (simp add: same_points_def)
    from Cons.IH[OF dfs drefs, of "drop ?n xs" ?s1] obtain h' where
      h': "slice_fields fs d (Array (drop ?n xs)) ?s1
             = (Inr (Array (drop (sum_list (map (ndata d (heap ?s1)) fs)) (drop ?n xs))),
                ?s1\<lparr>heap := h'\<rparr>)"
        "same_points h' (heap ?s1)"
        "\<forall>r. r \<notin> set (grid_refs fs d) \<longrightarrow> h' r = heap ?s1 r"
        "\<forall>f r. f \<in> set fs \<and> map_of d f = Some r \<longrightarrow>
            grid_value (h' r) = Some (predicted_slice fs d (heap ?s1) f (drop ?n xs))"
      by blast
    have nds: "sum_list (map (ndata d (heap ?s1)) fs) = sum_list (map (ndata d (heap s)) fs)"
      using ndata_same[OF sp1] by (simp cong: map_cong)
    have start: "\<And>f. f \<in> set fs \<Longrightarrow>
        slice_start (g # fs) d (heap s) f = ?n + slice_start fs d (heap ?s1) f"
      using gfs nd slice_start_same[OF sp1] by (auto simp: slice_start_def)
    have pred: "\<And>f. f \<in> set fs \<Longrightarrow>
        predicted_slice fs d (heap ?s1) f (drop ?n xs) = predicted_slice (g # fs) d (heap s) f xs"
      using start ndata_same[OF sp1] by (simp add: predicted_slice_def add.commute)
    have predg: "predicted_slice (g # fs) d (heap s) g xs = take ?n xs"
      using nd by (simp add: predicted_slice_def slice_start_def)
    have res: "slice_fields (g # fs) d (Array xs) s
           = (Inr (Array (drop (sum_list (map (ndata d (heap s)) (g # fs))) xs)), s\<lparr>heap := h'\<rparr>)"
      using Some h'(1) nd by (simp add: Let_def add.commute nds[simplified])
    have sp: "same_points h' (heap s)"
      using h'(2) by (simp add: same_points_def)
    have frame: "\<forall>q. q \<notin> set (grid_refs (g # fs) d) \<longrightarrow> h' q = heap s q"
      using h'(3) refs by auto
    have vals: "\<forall>f q. f \<in> set (g # fs) \<and> map_of d f = Some q \<longrightarrow>
            grid_value (h' q) = Some (predicted_slice (g # fs) d (heap s) f xs)"
    proof (intro allI impI)
      fix f q assume a: "f \<in> set (g # fs) \<and> map_of d f = Some q"
      show "grid_value (h' q) = Some (predicted_slice (g # fs) d (heap s) f xs)"
      proof (cases "f = g")
        case True
        then have "q = r" using a Some by simp
        then show ?thesis using True h'(3) rfs predg by simp
      next
        case False
        then have "f \<in> set fs" using a by simp
        then show ?thesis using h'(4) a pred by auto
      qed
    qed
    show ?thesis
      using res sp frame vals by blast
  qed
qed

text \<open>
  C9.  Let the bound observation set \<open>d\<close> keep its components in separate grid
  dictionaries, and let \<open>calc_adjustment(estimate)\<close> yield the vector \<open>xs\<close>.  Then
  \<open>calc_adjustment(estimate, grid=True)\<close> returns a dictionary with the entries of
  \<open>d\<close>, that is, with the very grid dictionaries of the bound data, which stays bound;
  and in the state it leaves, the \<open>'value'\<close> of every component present is its slice
  of \<open>xs\<close>, whatever was observed there before.  The observation points and the grids
  of other keys are untouched.
\<close>

theorem grid_adjustment_overwrites:
  assumes "g_data s = Some d" and "distinct (grid_refs field_list d)"
    and "calc_adjustment calc e False s = (Inr (Vector (Array xs)), s1)"
  shows "\<exists>h'. calc_adjustment calc e True s = (Inr (Grid d), s1\<lparr>heap := h'\<rparr>) \<and>
           g_data (s1\<lparr>heap := h'\<rparr>) = Some d \<and>
           same_points h' (heap s) \<and>
           (\<forall>r. r \<notin> set (grid_refs field_list d) \<longrightarrow> h' r = heap s r) \<and>
           (\<forall>f r. f \<in> set field_list \<and> map_of d f = Some r \<longrightarrow>
              grid_value (h' r) = Some (predicted_slice field_list d (heap s) f xs))"
proof -
  from assms(3) obtain J where
    J: "build_pgrav3d_jacobian calc e s = (Inr J, s1)" "numpy_dot J e = Inr (Array xs)"
    by (auto simp: calc_adjustment_vector)
  from build_frame[OF J(1)] assms(1) have fr: "heap s1 = heap s" "g_data s1 = Some d"
    by simp_all
  have dl: "distinct field_list" by (simp add: field_list_def)
  from slice_fields_overwrites[OF dl assms(2), of xs s1] obtain h' where
    h': "slice_fields field_list d (Array xs) s1
           = (Inr (Array (drop (sum_list (map (ndata d (heap s1)) field_list)) xs)),
              s1\<lparr>heap := h'\<rparr>)"
      "same_points h' (heap s1)"
      "\<forall>r. r \<notin> set (grid_refs field_list d) \<longrightarrow> h' r = heap s1 r"
      "\<forall>f r. f \<in> set field_list \<and> map_of d f = Some r \<longrightarrow>
            grid_value (h' r) = Some (predicted_slice field_list d (heap s1) f xs)"
    by blast
  have "calc_adjustment calc e True s = (Inr (Grid d), s1\<lparr>heap := h'\<rparr>)"
    using J fr h'(1) by (simp add: calc_adjustment_def and_then_def)
  then show ?thesis
    using h'(2,3,4) fr by auto
qed

lemma example_adjustment:
  "calc_adjustment example_kernel [1, 2] False example_state
     = (Inr (Vector (Array [35, 65, 190])),
        example_state\<lparr>g_jacobian := Some [[11, 12], [21, 22], [62, 64]], kernel_calls := 6\<rparr>)"
proof -
  have two: "length (mesh_ravel example_mesh) = 2" by (simp add: example_mesh_def)
  show ?thesis
    by (simp add: calc_adjustment_def and_then_def build_fresh[OF example_state_fields(1,2,3)]
          example_rows numpy_dot_def inner_def example_state_fields two)
qed

lemma example_slices:
  "predicted_slice field_list example_data example_heap ''gz'' [35, 65, 190] = [35, 65]"
  "predicted_slice field_list example_data example_heap ''gzz'' [35, 65, 190] = [190]"
  by (simp_all add: predicted_slice_def slice_start_def ndata_def field_list_def
        example_data_def example_heap_def)

text \<open>In the example the observed values \<open>[3, 4]\<close> and \<open>[6]\<close> are replaced by the
  predicted \<open>[35, 65]\<close> and \<open>[190]\<close>.\<close>

theorem grid_adjustment_overwrites_witness:
  "g_data example_state = Some example_data \<and>
   distinct (grid_refs field_list example_data) \<and>
   calc_adjustment example_kernel [1, 2] False example_state
     = (Inr (Vector (Array [35, 65, 190])),
        example_state\<lparr>g_jacobian := Some [[11, 12], [21, 22], [62, 64]], kernel_calls := 6\<rparr>) \<and>
   grid_value (heap example_state 0) = Some [3, 4] \<and>
   grid_value (heap example_state 1) = Some [6] \<and>
   (\<exists>h'. calc_adjustment example_kernel [1, 2] True example_state
            = (Inr (Grid example_data),
               example_state\<lparr>g_jacobian := Some [[11, 12], [21, 22], [62, 64]],
                 kernel_calls := 6, heap := h'\<rparr>) \<and>
          grid_value (h' 0) = Some [35, 65] \<and> grid_value (h' 1) = Some [190])"
proof -
  have refs: "distinct (grid_refs field_list example_data)"
    by (simp add: grid_refs_def field_list_def example_data_def)
  have gz: "''gz'' \<in> set field_list \<and> map_of example_data ''gz'' = Some 0"
    and gzz: "''gzz'' \<in> set field_list \<and> map_of example_data ''gzz'' = Some 1"
    by (simp_all add: field_list_def example_data_def)
  from grid_adjustment_overwrites[OF example_state_fields(2) refs example_adjustment]
  obtain h' where h':
    "calc_adjustment example_kernel [1, 2] True example_state
       = (Inr (Grid example_data),
          example_state\<lparr>g_jacobian := Some [[11, 12], [21, 22], [62, 64]],
            kernel_calls := 6, heap := h'\<rparr>)"
    "\<forall>f r. f \<in> set field_list \<and> map_of example_data f = Some r \<longrightarrow>
       grid_value (h' r)
         = Some (predicted_slice field_list example_data (heap example_state) f [35, 65, 190])"
    by auto
  from h'(2) gz gzz have "grid_value (h' 0) = Some [35, 65]" "grid_value (h' 1) = Some [190]"
    by (auto simp: example_state_fields example_slices)
  with h'(1) refs example_adjustment show ?thesis
    by (auto simp: example_state_fields example_heap_def)
qed


section \<open>\<open>residuals\<close>\<close>

lemma residuals_after_adjustment:
  assumes "calc_adjustment calc e False s = (Inr adjusted, s1)" and "d = (key, r) # rest"
  shows "(\<exists>J a. g_jacobian s1 = Some J \<and> numpy_dot J e = Inr a \<and> adjusted = Vector a) \<and>
    (grid_value (heap s r) \<noteq> None \<and> carries_values field_list d (heap s) \<longrightarrow>
       residuals calc d e s = (numpy_sub (value_blocks field_list d (heap s)) adjusted, s1)) \<and>
    (grid_value (heap s r) \<noteq> None \<and> \<not> carries_values field_list d (heap s) \<longrightarrow>
       residuals calc d e s = (Inl (KeyError ''value''), s1)) \<and>
    (\<forall>data_vector. grid_value (heap s r) = None \<and> g_data_vector s = Some data_vector \<longrightarrow>
       residuals calc d e s = (numpy_sub data_vector adjusted, s1)) \<and>
    (grid_value (heap s r) = None \<and> g_data_vector s = None \<longrightarrow>
       residuals calc d e s
         = (Inl (AssertionError (''Missing 'value' key in '' @ key @ '' data'')), s1)) \<and>
    (\<forall>data_vector xs. adjusted = Vector (Array xs) \<and> length data_vector = length xs \<longrightarrow>
       numpy_sub data_vector adjusted = Inr (map2 (-) data_vector xs))"
proof -
  from calc_adjustment_frame[OF assms(1)]
  have fr: "heap s1 = heap s" "g_data_vector s1 = g_data_vector s" by simp_all
  have pred: "\<exists>J a. g_jacobian s1 = Some J \<and> numpy_dot J e = Inr a \<and> adjusted = Vector a"
    using assms(1) by (auto simp: calc_adjustment_vector dest: build_caches)
  have ext: "carries_values field_list d (heap s) \<Longrightarrow>
      extract_data_vector d False s1 = (Inr (value_blocks field_list d (heap s)), s1)"
    using extract_fields_keep[of field_list d s1 "[]"] fr
    by (simp add: extract_data_vector_loop)
  have mis: "\<not> carries_values field_list d (heap s) \<Longrightarrow>
      extract_data_vector d False s1 = (Inl (KeyError ''value''), s1)"
    using extract_fields_missing[of field_list d s1 "[]"] fr
    by (simp add: extract_data_vector_loop)
  show ?thesis
    using assms pred fr ext mis
    by (auto simp: residuals_def and_then_def)
qed

lemma residuals_adjustment_fails:
  "calc_adjustment calc e False s = (Inl err, s1) \<Longrightarrow> residuals calc d e s = (Inl err, s1)"
  by (simp add: residuals_def and_then_def)

lemma residuals_empty:
  "calc_adjustment calc e False s = (Inr adjusted, s1) \<Longrightarrow>
   residuals calc [] e s = (Inl IndexError, s1)"
  by (simp add: residuals_def and_then_def)

lemma residuals_no_mesh:
  "g_mesh s = None \<Longrightarrow>
   residuals calc d e s = (Inl (AssertionError ''Can't build Jacobian. No mesh defined''), s)"
  by (simp add: residuals_def calc_adjustment_def build_pgrav3d_jacobian_def and_then_def)

text \<open>
  C6, as amended.  \<open>residuals(data, estimate)\<close> first computes the adjusted data of
  the estimate and fails with whatever that raises: in a session with no mesh bound,
  with the assertion error "Can't build Jacobian. No mesh defined".  When the adjusted
  data exist (\<open>adjusted\<close>, the product of the cached Jacobian with the estimate), it
  decides by the grid \<open>r\<close> of the first key of \<open>data\<close> alone:
  \<^item> if that grid has a \<open>'value'\<close>, it extracts the data vector anew from \<open>data\<close> and
    returns it minus \<open>adjusted\<close>; the extraction fails with \<open>KeyError\<close> if another
    component has no \<open>'value'\<close>, cached vector or not;
  \<^item> if that grid has none and a data vector is cached, it returns the cached vector
    minus \<open>adjusted\<close>, whatever the other components carry;
  \<^item> if that grid has none and no vector is cached, it fails with the assertion error
    "Missing 'value' key in ... data".
  Of an empty \<open>data\<close> there is no first key (\<open>IndexError\<close>).  The difference of two
  vectors of one length is taken entry by entry.
\<close>

theorem residuals_cases:
  "(\<forall>err s1. calc_adjustment calc e False s = (Inl err, s1) \<longrightarrow>
      residuals calc d e s = (Inl err, s1)) \<and>
   (g_mesh s = None \<longrightarrow>
      residuals calc d e s
        = (Inl (AssertionError ''Can't build Jacobian. No mesh defined''), s)) \<and>
   (\<forall>adjusted s1. calc_adjustment calc e False s = (Inr adjusted, s1) \<longrightarrow>
      (\<exists>J a. g_jacobian s1 = Some J \<and> numpy_dot J e = Inr a \<and> adjusted = Vector a) \<and>
      (d = [] \<longrightarrow> residuals calc d e s = (Inl IndexError, s1)) \<and>
      (\<forall>key r rest. d = (key, r) # rest \<longrightarrow>
         (grid_value (heap s r) \<noteq> None \<and> carries_values field_list d (heap s) \<longrightarrow>
            residuals calc d e s
              = (numpy_sub (value_blocks field_list d (heap s)) adjusted, s1)) \<and>
         (grid_value (heap s r) \<noteq> None \<and> \<not> carries_values field_list d (heap s) \<longrightarrow>
            residuals calc d e s = (Inl (KeyError ''value''), s1)) \<and>
         (\<forall>data_vector. grid_value (heap s r) = None \<and> g_data_vector s = Some data_vector \<longrightarrow>
            residuals calc d e s = (numpy_sub data_vector adjusted, s1)) \<and>
         (grid_value (heap s r) = None \<and> g_data_vector s = None \<longrightarrow>
            residuals calc d e s
              = (Inl (AssertionError (''Missing 'value' key in '' @ key @ '' data'')), s1))) \<and>
      (\<forall>data_vector xs. adjusted = Vector (Array xs) \<and> length data_vector = length xs \<longrightarrow>
         numpy_sub data_vector adjusted = Inr (map2 (-) data_vector xs)))"
proof (intro conjI allI impI)
  fix err s1 assume "calc_adjustment calc e False s = (Inl err, s1)"
  then show "residuals calc d e s = (Inl err, s1)" by (rule residuals_adjustment_fails)
next
  assume "g_mesh s = None"
  then show "residuals calc d e s
        = (Inl (AssertionError ''Can't build Jacobian. No mesh defined''), s)"
    by (rule residuals_no_mesh)
next
  fix adjusted s1 assume a: "calc_adjustment calc e False s = (Inr adjusted, s1)"
  show "\<exists>J a. g_jacobian s1 = Some J \<and> numpy_dot J e = Inr a \<and> adjusted = Vector a"
    using a by (auto simp: calc_adjustment_vector dest: build_caches)
next
  fix adjusted s1 assume a: "calc_adjustment calc e False s = (Inr adjusted, s1)" and "d = []"
  then show "residuals calc d e s = (Inl IndexError, s1)" by (simp add: residuals_empty)
next
  fix adjusted s1 key r rest
  assume a: "calc_adjustment calc e False s = (Inr adjusted, s1)" and d: "d = (key, r) # rest"
    and c: "grid_value (heap s r) \<noteq> None \<and> carries_values field_list d (heap s)"
  show "residuals calc d e s = (numpy_sub (value_blocks field_list d (heap s)) adjusted, s1)"
    using residuals_after_adjustment[OF a d] c by blast
next
  fix adjusted s1 key r rest
  assume a: "calc_adjustment calc e False s = (Inr adjusted, s1)" and d: "d = (key, r) # rest"
    and c: "grid_value (heap s r) \<noteq> None \<and> \<not> carries_values field_list d (heap s)"
  show "residuals calc d e s = (Inl (KeyError ''value''), s1)"
    using residuals_after_adjustment[OF a d] c by blast
next
  fix adjusted s1 key r rest data_vector
  assume a: "calc_adjustment calc e False s = (Inr adjusted, s1)" and d: "d = (key, r) # rest"
    and c: "grid_value (heap s r) = None \<and> g_data_vector s = Some data_vector"
  show "residuals calc d e s = (numpy_sub data_vector adjusted, s1)"
    using residuals_after_adjustment[OF a d] c by blast
next
  fix adjusted s1 key r rest
  assume a: "calc_adjustment calc e False s = (Inr adjusted, s1)" and d: "d = (key, r) # rest"
    and c: "grid_value (heap s r) = None \<and> g_data_vector s = None"
  show "residuals calc d e s
          = (Inl (AssertionError (''Missing 'value' key in '' @ key @ '' data'')), s1)"
    using residuals_after_adjustment[OF a d] c by blast
next
  fix adjusted :: "'a adjustment" and s1 :: "'a state" and data_vector xs :: "'a list"
  assume "adjusted = Vector (Array xs) \<and> length data_vector = length xs"
  then show "numpy_sub data_vector adjusted = Inr (map2 (-) data_vector xs)" by simp
qed

lemma example_stripped_adjustment:
  "calc_adjustment example_kernel [1, 2] False example_stripped
     = (Inr (Vector (Array [35, 65, 190])),
        example_stripped\<lparr>g_jacobian := Some [[11, 12], [21, 22], [62, 64]], kernel_calls := 6\<rparr>)"
  "calc_adjustment example_kernel [1, 2] False example_stripped_cached
     = (Inr (Vector (Array [35, 65, 190])),
        example_stripped_cached\<lparr>g_jacobian := Some [[11, 12], [21, 22], [62, 64]],
          kernel_calls := 6\<rparr>)"
  by (simp_all add: calc_adjustment_def and_then_def build_pgrav3d_jacobian_def
        example_stripped_cached_def example_stripped_def example_state_def field_list_def
        example_data_def example_heap_def example_mesh_def example_cell_def example_kernel_def
        numpy_dot_def inner_def)

text \<open>The four outcomes in the example: values carried, values deleted with a cached
  vector, values deleted without one, and the cleared session.\<close>

theorem residuals_cases_witness:
  "residuals example_kernel example_data [1, 2] example_state
     = (Inr [- 32, - 61, - 184],
        example_state\<lparr>g_jacobian := Some [[11, 12], [21, 22], [62, 64]], kernel_calls := 6\<rparr>) \<and>
   residuals example_kernel example_data [1, 2] example_stripped_cached
     = (Inr [- 32, - 61, - 184],
        example_stripped_cached\<lparr>g_jacobian := Some [[11, 12], [21, 22], [62, 64]],
          kernel_calls := 6\<rparr>) \<and>
   residuals example_kernel example_data [1, 2] example_stripped
     = (Inl (AssertionError ''Missing 'value' key in gzz data''),
        example_stripped\<lparr>g_jacobian := Some [[11, 12], [21, 22], [62, 64]], kernel_calls := 6\<rparr>) \<and>
   residuals example_kernel example_data [1, 2] (clear example_stripped)
     = (Inl (AssertionError ''Can't build Jacobian. No mesh defined''), clear example_stripped)"
proof -
  have d: "example_data = (''gzz'', 1) # [(''gz'', 0)]" by (simp add: example_data_def)
  have cv: "carries_values field_list example_data example_heap"
    using example_well_formed by (rule well_formed_carries)
  have v1: "grid_value (heap example_state 1) \<noteq> None \<and>
            carries_values field_list example_data (heap example_state)"
    using cv by (simp add: example_state_fields example_heap_def)
  have v2: "grid_value (heap example_stripped_cached 1) = None \<and>
            g_data_vector example_stripped_cached = Some [3, 4, 6]"
    by (simp add: example_stripped_cached_def example_stripped_def)
  have v3: "grid_value (heap example_stripped 1) = None \<and>
            g_data_vector example_stripped = None"
    by (simp add: example_stripped_def example_state_def)
  have v4: "g_mesh (clear example_stripped) = None" by (simp add: clear_def)
  from residuals_cases[of example_kernel "[1, 2]" example_state example_data]
    example_adjustment d v1
  have 1: "residuals example_kernel example_data [1, 2] example_state
     = (numpy_sub (value_blocks field_list example_data (heap example_state))
          (Vector (Array [35, 65, 190])),
        example_state\<lparr>g_jacobian := Some [[11, 12], [21, 22], [62, 64]], kernel_calls := 6\<rparr>)"
    by blast
  from residuals_cases[of example_kernel "[1, 2]" example_stripped_cached example_data]
    example_stripped_adjustment(2) d v2
  have 2: "residuals example_kernel example_data [1, 2] example_stripped_cached
     = (numpy_sub [3, 4, 6] (Vector (Array [35, 65, 190])),
        example_stripped_cached\<lparr>g_jacobian := Some [[11, 12], [21, 22], [62, 64]],
          kernel_calls := 6\<rparr>)"
    by blast
  from residuals_cases[of example_kernel "[1, 2]" example_stripped example_data]
    example_stripped_adjustment(1) d v3
  have 3: "residuals example_kernel example_data [1, 2] example_stripped
     = (Inl (AssertionError (''Missing 'value' key in '' @ ''gzz'' @ '' data'')),
        example_stripped\<lparr>g_jacobian := Some [[11, 12], [21, 22], [62, 64]], kernel_calls := 6\<rparr>)"
    by blast
  from residuals_cases[of example_kernel "[1, 2]" "clear example_stripped" example_data] v4
  have 4: "residuals example_kernel example_data [1, 2] (clear example_stripped)
     = (Inl (AssertionError ''Can't build Jacobian. No mesh defined''), clear example_stripped)"
    by blast
  from 1 2 3 4 show ?thesis
    by (simp add: example_state_fields example_values)
qed

text \<open>
  C6, as stated, fails.  With \<open>gzz\<close> first in the dictionary and carrying its values,
  \<open>gz\<close> without values and a data vector cached, \<open>residuals\<close> raises \<open>KeyError\<close>: it
  neither returns the re-extracted values minus the prediction nor falls back to the
  cached vector.  With the values on \<open>gz\<close> only, the carried values \<open>[3, 4]\<close> are not
  re-extracted: the cached vector \<open>[0, 0, 0]\<close> is used.  In a cleared session, with no
  observed values and no cached vector, the error is that of the missing mesh.
\<close>

theorem residuals_mixed_counterexample:
  "g_mesh example_mixed = Some example_mesh \<and> g_data example_mixed = Some example_data \<and>
   g_data_vector example_mixed = Some [3, 4, 6] \<and>
   grid_value (heap example_mixed 1) = Some [6] \<and>
   grid_value (heap example_mixed 0) = None \<and>
   fst (residuals example_kernel example_data [1, 2] example_mixed) = Inl (KeyError ''value'') \<and>
   grid_value (heap example_mixed_first 0) = Some [3, 4] \<and>
   g_data_vector example_mixed_first = Some [0, 0, 0] \<and>
   fst (residuals example_kernel example_data [1, 2] example_mixed_first)
     = Inr [- 35, - 65, - 190] \<and>
   grid_value (heap (clear example_stripped) 0) = None \<and>
   grid_value (heap (clear example_stripped) 1) = None \<and>
   g_data_vector (clear example_stripped) = None \<and>
   fst (residuals example_kernel example_data [1, 2] (clear example_stripped))
     = Inl (AssertionError ''Can't build Jacobian. No mesh defined'')"
  by code_simp

section \<open>The trace of goal functions\<close>

lemma try_steps_lower:
  "try_steps calc num reg dv lm_step J est res goal n marq s
     = (Inr (Some (trial, res', goal', marq')), s') \<Longrightarrow> goal' < goal"
proof (induction n arbitrary: marq s)
  case 0
  then show ?case by simp
next
  case (Suc n)
  then show ?case
    by (auto simp: Let_def split: prod.splits sum.splits if_splits)
qed

lemma lm_iterate_decreasing:
  "goals \<noteq> [] \<Longrightarrow> successively (\<lambda>a b. b < a) goals \<Longrightarrow>
   lm_iterate calc num reg dv lm_step max_steps n marq est res goals s
     = (Inr (est', goals', st), s') \<Longrightarrow>
   goals' \<noteq> [] \<and> successively (\<lambda>a b. b < a) goals'"
proof (induction n arbitrary: marq est res goals s)
  case 0
  then show ?case by simp
next
  case (Suc n)
  from Suc.prems(3) obtain J s1 where
    J: "build_pgrav3d_jacobian calc est s = (Inr J, s1)"
    by (auto split: prod.splits sum.splits)
  from Suc.prems(3) J obtain r s2 where
    r: "try_steps calc num reg dv lm_step J est res (last goals) max_steps marq s1 = (Inr r, s2)"
    by (auto split: prod.splits sum.splits)
  show ?case
  proof (cases r)
    case None
    then show ?thesis using Suc.prems J r by simp
  next
    case (Some t)
    obtain trial res' goal' marq' where t: "t = (trial, res', goal', marq')"
      by (cases t) auto
    have low: "goal' < last goals"
      using try_steps_lower r Some t by blast
    have chain: "goals @ [goal'] \<noteq> []" "successively (\<lambda>a b. b < a) (goals @ [goal'])"
      using Suc.prems(1,2) low by (simp_all add: successively_append_iff)
    show ?thesis
    proof (cases "converged num (last goals) goal'")
      case True
      then show ?thesis using Suc.prems(3) J r Some t chain by auto
    next
      case False
      then have "lm_iterate calc num reg dv lm_step max_steps n marq' trial res'
                   (goals @ [goal']) s2 = (Inr (est', goals', st), s')"
        using Suc.prems(3) J r Some t by simp
      from Suc.IH[OF chain this] show ?thesis .
    qed
  qed
qed

lemma lm_decreasing:
  "lm calc num reg dv initial lm_start lm_step max_steps max_it s = (Inr (est', goals', st), s')
   \<Longrightarrow> goals' \<noteq> [] \<and> successively (\<lambda>a b. b < a) goals'"
  unfolding lm_def
  by (auto split: prod.splits sum.splits dest!: lm_iterate_decreasing[rotated 2])

lemma solve_returns_lm:
  "fst (solve calc num tiny d mesh initial reg max_it lm_start lm_step max_steps s)
     = Inr (estimate, goals) \<Longrightarrow>
   \<exists>dv init st s1 s2. lm calc num reg dv init lm_start lm_step max_steps max_it s1
                        = (Inr (estimate, goals, st), s2)"
  by (auto simp: solve_def and_then_def split: option.splits prod.splits sum.splits) blast+

text \<open>
  C7.  For every run of \<open>solve\<close> that returns \<open>(estimate, goals)\<close>, the trace
  \<open>goals\<close> is not empty and every entry is less than or equal to the entry before it;
  indeed strictly less, a trial step being accepted only when its goal function is
  lower than the current one.  (The solver is the model of \<open>solvers.lm\<close> written from
  the specification; goal functions are values of any preorder.)
\<close>

theorem goals_non_increasing:
  fixes num :: "('a::{zero,one,plus,minus,times,divide}, 'g::preorder) numerics"
  assumes "fst (solve calc num tiny d mesh initial reg max_it lm_start lm_step max_steps s)
             = Inr (estimate, goals)"
  shows "goals \<noteq> [] \<and>
         (\<forall>i. Suc i < length goals \<longrightarrow> goals ! Suc i \<le> goals ! i) \<and>
         (\<forall>i. Suc i < length goals \<longrightarrow> goals ! Suc i < goals ! i)"
proof -
  from solve_returns_lm[OF assms] obtain dv init st s1 s2 where
    "lm calc num reg dv init lm_start lm_step max_steps max_it s1
       = (Inr (estimate, goals, st), s2)"
    by blast
  from lm_decreasing[OF this]
  have ne: "goals \<noteq> []" and dec: "successively (\<lambda>a b. b < a) goals" by simp_all
  have strict: "\<forall>i. Suc i < length goals \<longrightarrow> goals ! Suc i < goals ! i"
    using successively_nth[OF dec] by auto
  then have "\<forall>i. Suc i < length goals \<longrightarrow> goals ! Suc i \<le> goals ! i"
    by (auto intro: less_imp_le)
  with ne strict show ?thesis by simp
qed


lemma example_solve:
  "fst (solve example_kernel example_numerics 0 example_data example_mesh (Some [1, 1])
          example_regularization 5 1 10 3 example_state) = Inr ([0, 0], [16321, 61])"
  by code_simp

text \<open>From the estimate \<open>[1, 1]\<close> the example inversion accepts one step.\<close>

theorem goals_non_increasing_witness:
  "fst (solve example_kernel example_numerics 0 example_data example_mesh (Some [1, 1])
          example_regularization 5 1 10 3 example_state) = Inr ([0, 0], [16321, 61]) \<and>
   [16321, 61 :: int] ! Suc 0 \<le> [16321, 61] ! 0"
  using goals_non_increasing[OF example_solve] example_solve by simp


section \<open>An initial estimate of the wrong length\<close>







section \<open>The first-derivative operator\<close>

lemma zero_row_update:
  "p + off < n \<Longrightarrow> 0 < off \<Longrightarrow> (replicate n (0::int))[p := 1, p + off := - 1] = pair_row n p off"
  by (rule nth_equalityI) (auto simp: pair_row_def nth_list_update)

lemma emits_body:
  assumes "0 < off"
  shows "emits n (deriv_body off) (\<lambda>p. p + off < n) (\<lambda>p. [pair_row n p off]) 1 1"
  unfolding emits_def
proof (intro conjI allI impI)
  fix acc :: "int list list" and k p
  assume b: "p + off < n"
  let ?z = "replicate n (0::int)"
  let ?M = "acc @ replicate (1 + k) ?z"
  have M: "?M = acc @ ?z # replicate k ?z" by simp
  have s1: "set_entry ?M (length acc) p 1 = Inr (acc @ ?z[p := 1] # replicate k ?z)"
    using b unfolding M by (simp add: set_entry_def)
  have s2: "set_entry (acc @ ?z[p := 1] # replicate k ?z) (length acc) (p + off) (- 1)
              = Inr (acc @ ?z[p := 1, p + off := - 1] # replicate k ?z)"
    using b by (simp add: set_entry_def)
  show "deriv_body off (?M, length acc, p)
          = Inr (acc @ [pair_row n p off] @ replicate k ?z, length acc + 1, p + 1)"
    using s1 s2 zero_row_update[OF b assms] by (simp add: deriv_body_def)
qed simp

lemma upt_0_Suc_map: "[0..<Suc t] = 0 # map Suc [0..<t]"
  by (simp add: upt_conv_Cons map_Suc_upt del: upt_Suc)

lemma emits_repeat:
  assumes "emits n f B R c a"
  shows "emits n (repeat t f) (\<lambda>p. \<forall>j<t. B (p + j * a))
           (\<lambda>p. concat (map (\<lambda>j. R (p + j * a)) [0..<t])) (t * c) (t * a)"
proof -
  let ?z = "replicate n (0::int)"
  have len: "\<And>p. length (R p) = c" using assms by (simp add: emits_def)
  have step: "\<And>acc k p. B p \<Longrightarrow>
         f (acc @ replicate (c + k) ?z, length acc, p)
           = Inr (acc @ R p @ replicate k ?z, length acc + c, p + a)"
    using assms by (simp add: emits_def)
  have lens: "\<And>p t. length (concat (map (\<lambda>j. R (p + j * a)) [0..<t])) = t * c"
  proof -
    fix p t show "length (concat (map (\<lambda>j. R (p + j * a)) [0..<t])) = t * c"
      by (induction t) (simp_all add: len)
  qed
  have run: "\<And>acc k p. (\<forall>j<t. B (p + j * a)) \<Longrightarrow>
         repeat t f (acc @ replicate (t * c + k) ?z, length acc, p)
           = Inr (acc @ concat (map (\<lambda>j. R (p + j * a)) [0..<t]) @ replicate k ?z,
                  length acc + t * c, p + t * a)"
  proof (induction t)
    case 0
    show ?case by simp
  next
    case (Suc t)
    have b0: "B p" using Suc.prems by force
    have bs: "\<forall>j<t. B (p + a + j * a)"
    proof (intro allI impI)
      fix j assume "j < t"
      then have "B (p + Suc j * a)" using Suc.prems by auto
      then show "B (p + a + j * a)" by (simp add: add.assoc)
    qed
    have first: "f (acc @ replicate (Suc t * c + k) ?z, length acc, p)
           = Inr ((acc @ R p) @ replicate (t * c + k) ?z, length (acc @ R p), p + a)"
      using step[OF b0, of "acc" "t * c + k"] by (simp add: len add.assoc)
    have rest: "repeat t f ((acc @ R p) @ replicate (t * c + k) ?z, length (acc @ R p), p + a)
           = Inr ((acc @ R p) @ concat (map (\<lambda>j. R (p + a + j * a)) [0..<t]) @ replicate k ?z,
                  length (acc @ R p) + t * c, p + a + t * a)"
      using Suc.IH[OF bs, of "acc @ R p"] .
    have cc: "concat (map (\<lambda>j. R (p + j * a)) [0..<Suc t])
                = R p @ concat (map (\<lambda>j. R (p + a + j * a)) [0..<t])"
      by (simp only: upt_0_Suc_map) (simp add: comp_def add.assoc)
    show ?case
      using first rest by (simp add: cc len add.assoc del: upt_Suc)
  qed
  show ?thesis
    unfolding emits_def using lens run by simp
qed

lemma emits_skip:
  assumes "emits n f B R c a"
  shows "emits n (\<lambda>st. then_skip b (f st)) B R c (a + b)"
  using assms by (simp add: emits_def then_skip_def add.assoc)

lemma emits_weaken:
  assumes "emits n f B R c a" and "\<And>p. B' p \<Longrightarrow> B p"
  shows "emits n f B' R c a"
  using assms by (simp add: emits_def)

lemma emits_run:
  assumes "emits n f B R c a" and "B p" and "length acc = d"
  shows "f (acc @ replicate (c + k) (replicate n 0), d, p)
           = Inr (acc @ R p @ replicate k (replicate n 0), d + c, p + a)"
  using assms by (auto simp: emits_def)

lemma flat_index_bound:
  assumes "i < nx" and "j < ny" and "k < nz"
  shows "i + j * nx + k * (nx * ny) < nx * ny * (nz::nat)"
proof -
  have "i + j * nx < Suc j * nx" using assms(1) by simp
  also have "\<dots> \<le> ny * nx" using assms(2) by (intro mult_le_mono1) simp
  finally have a: "i + j * nx < nx * ny" by (simp add: mult.commute)
  then have "i + j * nx + k * (nx * ny) < Suc k * (nx * ny)" by simp
  also have "\<dots> \<le> nz * (nx * ny)" using assms(3) by (intro mult_le_mono1) simp
  finally show ?thesis by (simp add: mult.commute)
qed

lemma x_index:
  "0 < (nx::nat) \<Longrightarrow>
   0 + k * (ny * ((nx - 1) * 1 + 1)) + j * ((nx - 1) * 1 + 1) + i * 1 = i + j * nx + k * (nx * ny)"
  by (simp add: ac_simps)

lemma x_bound:
  assumes "0 < (nx::nat)" and "i < nx - 1" and "j < ny" and "k < nz"
  shows "0 + k * (ny * ((nx - 1) * 1 + 1)) + j * ((nx - 1) * 1 + 1) + i * 1 + 1 < nx * ny * nz"
proof -
  have "Suc i + j * nx + k * (nx * ny) < nx * ny * nz"
    using assms by (intro flat_index_bound) auto
  then show ?thesis
    unfolding x_index[OF assms(1)] by simp
qed

lemma pred_plus_one: "0 < (nx::nat) \<Longrightarrow> nx - 1 + 1 = nx"
  by simp

lemma x_index_plain: "k * (ny * nx) + j * nx + i = i + j * nx + k * (nx * (ny::nat))"
  by (simp add: ac_simps)

lemma x_run:
  assumes "0 < nx" and "length acc = d"
  shows "x_derivatives nx ny nz
           (acc @ replicate (nz * (ny * (nx - 1)) + k) (replicate (nx * ny * nz) 0), d, 0)
         = Inr (acc @ pair_rows nx ny nz (nx - 1) ny nz 1
                  @ replicate k (replicate (nx * ny * nz) 0),
                d + nz * (ny * (nx - 1)), nz * (ny * nx))"
proof -
  let ?n = "nx * ny * nz"
  note e1 = emits_skip[OF emits_repeat[OF emits_body[OF zero_less_one, of ?n], of "nx - 1"], of 1]
  note e2 = emits_repeat[OF emits_repeat[OF e1, of ny], of nz]
  have b: "\<forall>k<nz. \<forall>j<ny. \<forall>i<nx - 1.
             0 + k * (ny * ((nx - 1) * 1 + 1)) + j * ((nx - 1) * 1 + 1) + i * 1 + 1 < ?n"
    using x_bound[OF assms(1)] by blast
  have r: "concat (map (\<lambda>k. concat (map (\<lambda>j. concat (map (\<lambda>i.
              [pair_row ?n (k * (ny * nx) + j * nx + i) 1])
              [0..<nx - 1])) [0..<ny])) [0..<nz])
           = pair_rows nx ny nz (nx - 1) ny nz 1"
    unfolding pair_rows_def x_index_plain concat_map_singleton ..
  from emits_run[where p=0 and k=k, OF e2 b assms(2)]
  show ?thesis
    unfolding x_derivatives_def mult_1_right pred_plus_one[OF assms(1)] add_0_left r .
qed

lemma pred_times_plus: "0 < (ny::nat) \<Longrightarrow> (ny - 1) * nx + nx = ny * nx"
  by (cases ny) simp_all

lemma y_bound:
  assumes "0 < (ny::nat)" and "i < nx" and "j < ny - 1" and "k < nz"
  shows "0 + k * ((ny - 1) * (nx * 1) + nx) + j * (nx * 1) + i * 1 + nx < nx * ny * nz"
proof -
  have lt: "i + Suc j * nx + k * (nx * ny) < nx * ny * nz"
    using assms by (intro flat_index_bound) auto
  have eq: "0 + k * ((ny - 1) * (nx * 1) + nx) + j * (nx * 1) + i * 1 + nx
      = i + Suc j * nx + k * (nx * ny)"
    unfolding mult_1_right pred_times_plus[OF assms(1)] by (simp add: ac_simps)
  show ?thesis unfolding eq by (rule lt)
qed

lemma y_run:
  assumes "0 < nx" and "0 < ny" and "length acc = d"
  shows "y_derivatives nx ny nz
           (acc @ replicate (nz * ((ny - 1) * nx) + k) (replicate (nx * ny * nz) 0), d, 0)
         = Inr (acc @ pair_rows nx ny nz nx (ny - 1) nz nx
                  @ replicate k (replicate (nx * ny * nz) 0),
                d + nz * ((ny - 1) * nx), nz * (ny * nx))"
proof -
  let ?n = "nx * ny * nz"
  note e1 = emits_repeat[OF emits_repeat[OF emits_body[OF assms(1), of ?n], of nx], of "ny - 1"]
  note e2 = emits_repeat[OF emits_skip[OF e1, of nx], of nz]
  have b: "\<forall>k<nz. \<forall>j<ny - 1. \<forall>i<nx.
             0 + k * ((ny - 1) * (nx * 1) + nx) + j * (nx * 1) + i * 1 + nx < ?n"
    using y_bound[OF assms(2)] by blast
  have r: "concat (map (\<lambda>k. concat (map (\<lambda>j. concat (map (\<lambda>i.
              [pair_row ?n (k * (ny * nx) + j * nx + i) nx])
              [0..<nx])) [0..<ny - 1])) [0..<nz])
           = pair_rows nx ny nz nx (ny - 1) nz nx"
    unfolding pair_rows_def x_index_plain concat_map_singleton ..
  from emits_run[where p=0 and k=k, OF e2 b assms(3)]
  show ?thesis
    unfolding y_derivatives_def mult_1_right pred_times_plus[OF assms(2)] add_0_left r .
qed

lemma z_bound:
  assumes "i < nx" and "j < ny" and "k < nz - 1"
  shows "0 + k * (ny * (nx * 1)) + j * (nx * 1) + i * 1 + nx * ny < nx * ny * (nz::nat)"
proof -
  have lt: "i + j * nx + Suc k * (nx * ny) < nx * ny * nz"
    using assms by (intro flat_index_bound) auto
  have eq: "0 + k * (ny * (nx * 1)) + j * (nx * 1) + i * 1 + nx * ny
      = i + j * nx + Suc k * (nx * ny)"
    by (simp add: algebra_simps)
  show ?thesis unfolding eq by (rule lt)
qed

lemma z_run:
  assumes "0 < nx" and "0 < ny" and "length acc = d"
  shows "z_derivatives nx ny nz
           (acc @ replicate ((nz - 1) * (ny * nx) + k) (replicate (nx * ny * nz) 0), d, 0)
         = Inr (acc @ pair_rows nx ny nz nx ny (nz - 1) (nx * ny)
                  @ replicate k (replicate (nx * ny * nz) 0),
                d + (nz - 1) * (ny * nx), (nz - 1) * (ny * nx))"
proof -
  let ?n = "nx * ny * nz"
  have pos: "0 < nx * ny" using assms by simp
  note e = emits_repeat[OF emits_repeat[OF emits_repeat[OF emits_body[OF pos, of ?n], of nx],
              of ny], of "nz - 1"]
  have b: "\<forall>k<nz - 1. \<forall>j<ny. \<forall>i<nx.
             0 + k * (ny * (nx * 1)) + j * (nx * 1) + i * 1 + nx * ny < ?n"
    using z_bound by blast
  have r: "concat (map (\<lambda>k. concat (map (\<lambda>j. concat (map (\<lambda>i.
              [pair_row ?n (k * (ny * nx) + j * nx + i) (nx * ny)])
              [0..<nx])) [0..<ny])) [0..<nz - 1])
           = pair_rows nx ny nz nx ny (nz - 1) (nx * ny)"
    unfolding pair_rows_def x_index_plain concat_map_singleton ..
  from emits_run[where p=0 and k=k, OF e b assms(3)]
  show ?thesis
    unfolding z_derivatives_def mult_1_right add_0_left r .
qed

lemma pair_rows_length: "length (pair_rows nx ny nz ci cj ck off) = ck * (cj * ci)"
proof -
  have inner: "\<And>k cj. length (concat (map (\<lambda>j.
        map (\<lambda>i. pair_row (nx * ny * nz) (i + j * nx + k * (nx * ny)) off) [0..<ci])
        [0..<cj])) = cj * ci"
  proof -
    fix k cj show "length (concat (map (\<lambda>j.
        map (\<lambda>i. pair_row (nx * ny * nz) (i + j * nx + k * (nx * ny)) off) [0..<ci])
        [0..<cj])) = cj * ci"
      by (induction cj) simp_all
  qed
  show ?thesis
    unfolding pair_rows_def by (induction ck) (simp_all add: inner)
qed

lemma deriv_num_nat:
  assumes "0 < nx" and "0 < ny" and "0 < nz"
  shows "(int nx - 1) * int ny * int nz + (int ny - 1) * int nx * int nz
           + (int nz - 1) * int nx * int ny
         = int (nz * (ny * (nx - 1)) + (nz * ((ny - 1) * nx) + ((nz - 1) * (ny * nx) + 0)))"
proof -
  obtain a b c where "nx = Suc a" "ny = Suc b" "nz = Suc c"
    using assms by (metis Suc_pred)
  then show ?thesis by (simp add: algebra_simps)
qed

lemma first_deriv_refines:
  assumes "0 < nx" and "0 < ny" and "0 < nz"
  shows "first_deriv_of_shape nz ny nx = Inr (first_deriv_rows nx ny nz)"
proof -
  let ?z = "replicate (nx * ny * nz) (0::int)"
  let ?X = "pair_rows nx ny nz (nx - 1) ny nz 1"
  let ?Y = "pair_rows nx ny nz nx (ny - 1) nz nx"
  let ?Z = "pair_rows nx ny nz nx ny (nz - 1) (nx * ny)"
  let ?cx = "nz * (ny * (nx - 1))"
  let ?cy = "nz * ((ny - 1) * nx)"
  let ?cz = "(nz - 1) * (ny * nx)"
  have x: "x_derivatives nx ny nz (replicate (?cx + (?cy + (?cz + 0))) ?z, 0, 0)
             = Inr (?X @ replicate (?cy + (?cz + 0)) ?z, ?cx, nz * (ny * nx))"
    using x_run[OF assms(1), where acc="[]" and d=0 and ny=ny and nz=nz and k="?cy + (?cz + 0)"]
    by simp
  have lx: "length ?X = ?cx" by (simp add: pair_rows_length)
  have y: "y_derivatives nx ny nz (?X @ replicate (?cy + (?cz + 0)) ?z, ?cx, 0)
             = Inr (?X @ ?Y @ replicate (?cz + 0) ?z, ?cx + ?cy, nz * (ny * nx))"
    using y_run[OF assms(1,2) lx, where nz=nz and k="?cz + 0"] .
  have lxy: "length (?X @ ?Y) = ?cx + ?cy" by (simp add: pair_rows_length)
  have z: "z_derivatives nx ny nz ((?X @ ?Y) @ replicate (?cz + 0) ?z, ?cx + ?cy, 0)
             = Inr ((?X @ ?Y) @ ?Z @ replicate 0 ?z, ?cx + ?cy + ?cz, ?cz)"
    using z_run[OF assms(1,2) lxy, where nz=nz and k=0] .
  show ?thesis
    unfolding first_deriv_of_shape_def Let_def deriv_num_nat[OF assms]
    apply (simp only: nat_int of_nat_less_0_iff if_False)
    using x y z apply (simp add: reset_param_def first_deriv_rows_def)
    done
qed

lemma pair_row_length: "length (pair_row n p off) = n"
  by (simp add: pair_row_def)

lemma pair_row_count:
  assumes "p + off < n" and "0 < off"
  shows "count_list (pair_row n p off) 1 = 1"
    and "count_list (pair_row n p off) (- 1) = 1"
    and "count_list (pair_row n p off) 0 = n - 2"
proof -
  let ?f = "\<lambda>q. if q = p then 1 else if q = p + off then - 1 else (0::int)"
  have c: "\<And>v. count_list (pair_row n p off) v = card {q. q < n \<and> v = ?f q}"
    by (simp add: pair_row_def count_list_eq_length_filter length_filter_conv_card cong: conj_cong)
  have one: "{q. q < n \<and> 1 = ?f q} = {p}" using assms by auto
  have mone: "{q. q < n \<and> - 1 = ?f q} = {p + off}" using assms by auto
  have zero: "{q. q < n \<and> 0 = ?f q} = {..<n} - {p, p + off}" using assms by auto
  show "count_list (pair_row n p off) 1 = 1" by (simp only: c one) simp
  show "count_list (pair_row n p off) (- 1) = 1" by (simp only: c mone) simp
  have "card ({..<n} - {p, p + off}) = n - 2"
    using assms by (subst card_Diff_subset) auto
  then show "count_list (pair_row n p off) 0 = n - 2" by (simp only: c zero)
qed

lemma pair_rows_member:
  "row \<in> set (pair_rows nx ny nz ci cj ck off) \<Longrightarrow>
   \<exists>i<ci. \<exists>j<cj. \<exists>k<ck. row = pair_row (nx * ny * nz) (i + j * nx + k * (nx * ny)) off"
  by (clarsimp simp: pair_rows_def) blast

lemma concat_blocks_nth:
  assumes "\<And>j. length (F j) = c" and "j < t" and "i < c"
  shows "concat (map F [0..<t]) ! (i + j * c) = F j ! i"
  using assms(2)
proof (induction t)
  case 0
  then show ?case by simp
next
  case (Suc t)
  have len: "length (concat (map F [0..<t])) = t * c"
    by (induction t) (simp_all add: assms(1))
  show ?case
  proof (cases "j < t")
    case True
    have "i + j * c < Suc j * c" using assms(3) by simp
    also have "\<dots> \<le> t * c" using True by (intro mult_le_mono1) simp
    finally have "i + j * c < t * c" .
    then show ?thesis using Suc.IH[OF True] by (simp add: nth_append len)
  next
    case False
    then have "j = t" using Suc.prems by simp
    then show ?thesis by (simp add: nth_append len)
  qed
qed

lemma pair_rows_nth:
  assumes "i < ci" and "j < cj" and "k < ck"
  shows "pair_rows nx ny nz ci cj ck off ! (i + j * ci + k * (ci * cj))
           = pair_row (nx * ny * nz) (i + j * nx + k * (nx * ny)) off"
proof -
  let ?G = "\<lambda>k j. map (\<lambda>i. pair_row (nx * ny * nz) (i + j * nx + k * (nx * ny)) off) [0..<ci]"
  let ?F = "\<lambda>k. concat (map (?G k) [0..<cj])"
  have lenF: "\<And>k. length (?F k) = cj * ci"
  proof -
    fix k show "length (?F k) = cj * ci" by (induction cj) simp_all
  qed
  have ij: "i + j * ci < cj * ci"
  proof -
    have "i + j * ci < Suc j * ci" using assms(1) by simp
    also have "\<dots> \<le> cj * ci" using assms(2) by (intro mult_le_mono1) simp
    finally show ?thesis .
  qed
  have "pair_rows nx ny nz ci cj ck off ! ((i + j * ci) + k * (cj * ci)) = ?F k ! (i + j * ci)"
    unfolding pair_rows_def using lenF assms(3) ij by (rule concat_blocks_nth)
  also have "\<dots> = ?G k j ! i"
    using _ assms(2,1) by (rule concat_blocks_nth) simp
  also have "\<dots> = pair_row (nx * ny * nz) (i + j * nx + k * (nx * ny)) off"
    using assms(1) by simp
  finally show ?thesis by (simp add: mult.commute)
qed

lemma block_nth:
  assumes "i < ci" and "j < cj" and "k < ck" and "length A = a"
  shows "(A @ pair_rows nx ny nz ci cj ck off @ B) ! (a + (i + j * ci + k * (ci * cj)))
           = pair_row (nx * ny * nz) (i + j * nx + k * (nx * ny)) off"
proof -
  have "i + j * ci + k * (ci * cj) < ci * cj * ck"
    using assms(1-3) by (rule flat_index_bound)
  then have "i + j * ci + k * (ci * cj) < length (pair_rows nx ny nz ci cj ck off)"
    by (simp add: pair_rows_length ac_simps)
  then show ?thesis
    using pair_rows_nth[OF assms(1-3), of nx ny nz off] assms(4)
    by (simp add: nth_append)
qed

lemma first_deriv_rows_member:
  assumes "0 < nx" and "0 < ny" and "0 < nz" and "row \<in> set (first_deriv_rows nx ny nz)"
  shows "\<exists>p off. row = pair_row (nx * ny * nz) p off \<and> p + off < nx * ny * nz \<and> 0 < off"
proof -
  from assms(4) consider
      (x) "row \<in> set (pair_rows nx ny nz (nx - 1) ny nz 1)"
    | (y) "row \<in> set (pair_rows nx ny nz nx (ny - 1) nz nx)"
    | (z) "row \<in> set (pair_rows nx ny nz nx ny (nz - 1) (nx * ny))"
    by (auto simp: first_deriv_rows_def)
  then show ?thesis
  proof cases
    case x
    from pair_rows_member[OF x] obtain i j k where
      ijk: "i < nx - 1" "j < ny" "k < nz"
        "row = pair_row (nx * ny * nz) (i + j * nx + k * (nx * ny)) 1"
      by blast
    have "Suc i + j * nx + k * (nx * ny) < nx * ny * nz"
      using ijk by (intro flat_index_bound) auto
    then show ?thesis
      using ijk(4)
      by - (rule exI[of _ "i + j * nx + k * (nx * ny)"], rule exI[of _ 1], simp)
  next
    case y
    from pair_rows_member[OF y] obtain i j k where
      ijk: "i < nx" "j < ny - 1" "k < nz"
        "row = pair_row (nx * ny * nz) (i + j * nx + k * (nx * ny)) nx"
      by blast
    have "i + Suc j * nx + k * (nx * ny) < nx * ny * nz"
      using ijk by (intro flat_index_bound) auto
    then show ?thesis
      using ijk(4) assms(1)
      by - (rule exI[of _ "i + j * nx + k * (nx * ny)"], rule exI[of _ nx], simp add: ac_simps)
  next
    case z
    from pair_rows_member[OF z] obtain i j k where
      ijk: "i < nx" "j < ny" "k < nz - 1"
        "row = pair_row (nx * ny * nz) (i + j * nx + k * (nx * ny)) (nx * ny)"
      by blast
    have "i + j * nx + Suc k * (nx * ny) < nx * ny * nz"
      using ijk by (intro flat_index_bound) auto
    then show ?thesis
      using ijk(4) assms(1,2)
      by - (rule exI[of _ "i + j * nx + k * (nx * ny)"], rule exI[of _ "nx * ny"],
            simp add: algebra_simps)
  qed
qed

text \<open>
  C3.  For a bound mesh of shape \<open>(nz, ny, nx)\<close> with positive dimensions,
  \<open>_build_pgrav3d_first_deriv\<close> returns, without touching the state, the matrix \<open>M\<close>
  of the specification: it has \<open>(nx-1)*ny*nz + nx*(ny-1)*nz + nx*ny*(nz-1)\<close> rows of
  \<open>nx*ny*nz\<close> entries; every row holds exactly one \<open>+1\<close> and one \<open>-1\<close> and zeros
  elsewhere; first come the rows of the pairs along x, then those along y, then those
  along z, and the row of the cell \<open>(i, j, k)\<close> has its \<open>+1\<close> at the flattened index
  \<open>i + j*nx + k*nx*ny\<close> and its \<open>-1\<close> at that index plus \<open>1\<close>, \<open>nx\<close> or \<open>nx*ny\<close>.
\<close>

theorem first_deriv_structure:
  assumes "g_mesh s = Some mesh" and "mesh_shape mesh = (nz, ny, nx)"
    and "0 < nx" and "0 < ny" and "0 < nz"
  shows "\<exists>M. build_pgrav3d_first_deriv s = (Inr M, s) \<and>
     M = first_deriv_rows nx ny nz \<and>
     length M = (nx - 1) * ny * nz + nx * (ny - 1) * nz + nx * ny * (nz - 1) \<and>
     (\<forall>row \<in> set M. length row = nx * ny * nz \<and> count_list row 1 = 1 \<and>
        count_list row (- 1) = 1 \<and> count_list row 0 = nx * ny * nz - 2) \<and>
     (\<forall>i j k. i < nx - 1 \<and> j < ny \<and> k < nz \<longrightarrow>
        M ! (i + j * (nx - 1) + k * ((nx - 1) * ny))
          = pair_row (nx * ny * nz) (i + j * nx + k * (nx * ny)) 1) \<and>
     (\<forall>i j k. i < nx \<and> j < ny - 1 \<and> k < nz \<longrightarrow>
        M ! ((nx - 1) * ny * nz + (i + j * nx + k * (nx * (ny - 1))))
          = pair_row (nx * ny * nz) (i + j * nx + k * (nx * ny)) nx) \<and>
     (\<forall>i j k. i < nx \<and> j < ny \<and> k < nz - 1 \<longrightarrow>
        M ! ((nx - 1) * ny * nz + nx * (ny - 1) * nz + (i + j * nx + k * (nx * ny)))
          = pair_row (nx * ny * nz) (i + j * nx + k * (nx * ny)) (nx * ny))"
proof -
  let ?M = "first_deriv_rows nx ny nz"
  let ?X = "pair_rows nx ny nz (nx - 1) ny nz 1"
  let ?Y = "pair_rows nx ny nz nx (ny - 1) nz nx"
  let ?Z = "pair_rows nx ny nz nx ny (nz - 1) (nx * ny)"
  have run: "build_pgrav3d_first_deriv s = (Inr ?M, s)"
    using assms(1,2) first_deriv_refines[OF assms(3-5)]
    by (simp add: build_pgrav3d_first_deriv_def)
  have len: "length ?M = (nx - 1) * ny * nz + nx * (ny - 1) * nz + nx * ny * (nz - 1)"
    by (simp add: first_deriv_rows_def pair_rows_length ac_simps)
  have rows: "\<forall>row \<in> set ?M. length row = nx * ny * nz \<and> count_list row 1 = 1 \<and>
        count_list row (- 1) = 1 \<and> count_list row 0 = nx * ny * nz - 2"
  proof
    fix row assume "row \<in> set ?M"
    from first_deriv_rows_member[OF assms(3-5) this] obtain p off where
      "row = pair_row (nx * ny * nz) p off" "p + off < nx * ny * nz" "0 < off"
      by blast
    then show "length row = nx * ny * nz \<and> count_list row 1 = 1 \<and>
        count_list row (- 1) = 1 \<and> count_list row 0 = nx * ny * nz - 2"
      by (simp add: pair_row_length pair_row_count)
  qed
  have lx: "length ([] :: int list list) = 0" by simp
  have x: "\<forall>i j k. i < nx - 1 \<and> j < ny \<and> k < nz \<longrightarrow>
        ?M ! (i + j * (nx - 1) + k * ((nx - 1) * ny))
          = pair_row (nx * ny * nz) (i + j * nx + k * (nx * ny)) 1"
  proof (intro allI impI)
    fix i j k assume a: "i < nx - 1 \<and> j < ny \<and> k < nz"
    from a have "i < nx - 1" "j < ny" "k < nz" by simp_all
    from block_nth[OF this lx, where nx=nx and ny=ny and nz=nz and off=1 and B="?Y @ ?Z"]
    show "?M ! (i + j * (nx - 1) + k * ((nx - 1) * ny))
          = pair_row (nx * ny * nz) (i + j * nx + k * (nx * ny)) 1"
      by (simp add: first_deriv_rows_def)
  qed
  have ly: "length ?X = (nx - 1) * ny * nz" by (simp add: pair_rows_length ac_simps)
  have y: "\<forall>i j k. i < nx \<and> j < ny - 1 \<and> k < nz \<longrightarrow>
        ?M ! ((nx - 1) * ny * nz + (i + j * nx + k * (nx * (ny - 1))))
          = pair_row (nx * ny * nz) (i + j * nx + k * (nx * ny)) nx"
  proof (intro allI impI)
    fix i j k assume a: "i < nx \<and> j < ny - 1 \<and> k < nz"
    from a have "i < nx" "j < ny - 1" "k < nz" by simp_all
    from block_nth[OF this ly, where off=nx and B="?Z"]
    show "?M ! ((nx - 1) * ny * nz + (i + j * nx + k * (nx * (ny - 1))))
          = pair_row (nx * ny * nz) (i + j * nx + k * (nx * ny)) nx"
      by (simp add: first_deriv_rows_def)
  qed
  have lz: "length (?X @ ?Y) = (nx - 1) * ny * nz + nx * (ny - 1) * nz"
    by (simp add: pair_rows_length ac_simps)
  have z: "\<forall>i j k. i < nx \<and> j < ny \<and> k < nz - 1 \<longrightarrow>
        ?M ! ((nx - 1) * ny * nz + nx * (ny - 1) * nz + (i + j * nx + k * (nx * ny)))
          = pair_row (nx * ny * nz) (i + j * nx + k * (nx * ny)) (nx * ny)"
  proof (intro allI impI)
    fix i j k assume a: "i < nx \<and> j < ny \<and> k < nz - 1"
    from a have "i < nx" "j < ny" "k < nz - 1" by simp_all
    from block_nth[OF this lz, where off="nx * ny" and B="[]"]
    show "?M ! ((nx - 1) * ny * nz + nx * (ny - 1) * nz + (i + j * nx + k * (nx * ny)))
          = pair_row (nx * ny * nz) (i + j * nx + k * (nx * ny)) (nx * ny)"
      by (simp add: first_deriv_rows_def)
  qed
  from run len rows x y z show ?thesis by blast
qed

lemma example_first_deriv_rows:
  "first_deriv_rows 2 2 1 = [[1, - 1, 0, 0], [0, 0, 1, - 1], [1, 0, - 1, 0], [0, 1, 0, - 1]]"
  by code_simp

theorem first_deriv_structure_witness:
  "g_mesh (example_state\<lparr>g_mesh := Some example_layer_mesh\<rparr>) = Some example_layer_mesh \<and>
   mesh_shape example_layer_mesh = (1, 2, 2) \<and>
   build_pgrav3d_first_deriv (example_state\<lparr>g_mesh := Some example_layer_mesh\<rparr>)
     = (Inr [[1, - 1, 0, 0], [0, 0, 1, - 1], [1, 0, - 1, 0], [0, 1, 0, - 1]],
        example_state\<lparr>g_mesh := Some example_layer_mesh\<rparr>)"
proof -
  have m: "g_mesh (example_state\<lparr>g_mesh := Some example_layer_mesh\<rparr>) = Some example_layer_mesh"
    by simp
  have sh: "mesh_shape example_layer_mesh = (1, 2, 2)" by (simp add: example_layer_mesh_def)
  have "build_pgrav3d_first_deriv (example_state\<lparr>g_mesh := Some example_layer_mesh\<rparr>)
     = (Inr (first_deriv_rows 2 2 1), example_state\<lparr>g_mesh := Some example_layer_mesh\<rparr>)"
    using first_deriv_structure[OF m sh] by auto
  then show ?thesis
    unfolding example_first_deriv_rows using m sh by simp
qed

end
